theory Spec2Isabelle
  imports Complex_Main
begin

section \<open>Dense arrays\<close>

text \<open>
  A dense array (\<^verbatim>\<open>torch.Tensor\<close>) is its shape together with its entries in row-major
  order, which is how a contiguous array is stored. Entries are real numbers: rounding of
  floating-point arithmetic is not modelled. Every exception of the source is a value of
  type \<open>error\<close>.
\<close>

datatype error =
  ValueError | IndexError | RuntimeError | AttributeError | ZeroDivisionError
  | NotImplementedError | AssertionError | TypeError

definition bind_e :: "error + 'a \<Rightarrow> ('a \<Rightarrow> error + 'b) \<Rightarrow> error + 'b" where
  "bind_e m f = (case m of Inl e \<Rightarrow> Inl e | Inr x \<Rightarrow> f x)"

record arr =
  sizes :: "nat list"
  elems :: "real list"

definition dim :: "arr \<Rightarrow> nat" where
  "dim t = length (sizes t)"


text \<open>\<^verbatim>\<open>xs[i]\<close> on a Python sequence, for \<open>i \<ge> 0\<close>.\<close>

definition py_get :: "'a list \<Rightarrow> nat \<Rightarrow> error + 'a" where
  "py_get xs i = (if i < length xs then Inr (xs ! i) else Inl IndexError)"

text \<open>\<^verbatim>\<open>a // b\<close> on non-negative Python integers.\<close>

definition py_floordiv :: "nat \<Rightarrow> nat \<Rightarrow> error + nat" where
  "py_floordiv a b = (if b = 0 then Inl ZeroDivisionError else Inr (a div b))"

text \<open>
  The target shape of \<^verbatim>\<open>torch.reshape\<close>: \<open>None\<close> stands for the entry \<^verbatim>\<open>-1\<close>, which is
  inferred from the number of entries. Torch refuses two inferred entries, an inferred entry
  beside a zero one, and a shape whose product is not the number of entries.
\<close>

definition infer_shape :: "nat \<Rightarrow> nat option list \<Rightarrow> error + nat list" where
  "infer_shape n spec =
     (let known = prod_list (map the (filter (\<lambda>d. d \<noteq> None) spec));
          holes = length (filter (\<lambda>d. d = None) spec)
      in if holes = 0 then (if known = n then Inr (map the spec) else Inl RuntimeError)
         else if holes = 1 \<and> known \<noteq> 0 \<and> n mod known = 0
           then Inr (map (\<lambda>d. case d of None \<Rightarrow> n div known | Some k \<Rightarrow> k) spec)
         else Inl RuntimeError)"

definition reshape :: "arr \<Rightarrow> nat option list \<Rightarrow> error + arr" where
  "reshape t spec =
     bind_e (infer_shape (length (elems t)) spec) (\<lambda>sh. Inr \<lparr>sizes = sh, elems = elems t\<rparr>)"

text \<open>Entry access and construction by index, for two and three axes.\<close>

definition at2 :: "arr \<Rightarrow> nat \<Rightarrow> nat \<Rightarrow> real" where
  "at2 t i j = elems t ! (i * (sizes t ! 1) + j)"

definition at3 :: "arr \<Rightarrow> nat \<Rightarrow> nat \<Rightarrow> nat \<Rightarrow> real" where
  "at3 t i j k = elems t ! ((i * (sizes t ! 1) + j) * (sizes t ! 2) + k)"

definition tabulate2 :: "nat \<Rightarrow> nat \<Rightarrow> (nat \<Rightarrow> nat \<Rightarrow> real) \<Rightarrow> arr" where
  "tabulate2 a b f =
     \<lparr>sizes = [a, b], elems = map (\<lambda>n. f (n div b) (n mod b)) [0..<a * b]\<rparr>"

definition tabulate3 :: "nat \<Rightarrow> nat \<Rightarrow> nat \<Rightarrow> (nat \<Rightarrow> nat \<Rightarrow> nat \<Rightarrow> real) \<Rightarrow> arr" where
  "tabulate3 a b c f =
     \<lparr>sizes = [a, b, c],
      elems = map (\<lambda>n. f (n div (b * c)) (n div c mod b) (n mod c)) [0..<a * b * c]\<rparr>"

definition eye :: "nat \<Rightarrow> arr" where
  "eye n = tabulate2 n n (\<lambda>i j. if i = j then 1 else 0)"

definition ones :: "nat list \<Rightarrow> arr" where
  "ones sh = \<lparr>sizes = sh, elems = replicate (prod_list sh) 1\<rparr>"

definition zeros :: "nat list \<Rightarrow> arr" where
  "zeros sh = \<lparr>sizes = sh, elems = replicate (prod_list sh) 0\<rparr>"

text \<open>
  Broadcasting, as \<^verbatim>\<open>torch.einsum\<close> and the arithmetic of arrays do it: two axes that
  stand for one letter fit when they have one length or one of them has the length 1; the
  axis of length 1 is then read at position 0 for every position of the other.
\<close>

definition fits :: "nat \<Rightarrow> nat \<Rightarrow> bool" where
  "fits m n = (m = n \<or> m = 1 \<or> n = 1)"

definition joint :: "nat \<Rightarrow> nat \<Rightarrow> nat" where
  "joint m n = (if m = 1 then n else m)"

definition bpos :: "nat \<Rightarrow> nat \<Rightarrow> nat" where
  "bpos m i = (if m = 1 then 0 else i)"

text \<open>
  The contractions \<^verbatim>\<open>torch.einsum\<close> is called with. Operands whose axis count does not
  fit the subscripts, or whose axes for one letter do not fit, are refused. Each
  definition has the case of equal lengths first and the case with an axis of length 1
  after it.
\<close>

definition einsum_ai_ibj :: "arr \<Rightarrow> arr \<Rightarrow> error + arr" where
  "einsum_ai_ibj x y =
     (if dim x = 2 \<and> dim y = 3 \<and> sizes x ! 1 = sizes y ! 0
      then Inr (tabulate3 (sizes x ! 0) (sizes y ! 1) (sizes y ! 2)
                 (\<lambda>a b j. \<Sum>i\<leftarrow>[0..<sizes x ! 1]. at2 x a i * at3 y i b j))
      else if dim x = 2 \<and> dim y = 3 \<and> fits (sizes x ! 1) (sizes y ! 0)
      then Inr (tabulate3 (sizes x ! 0) (sizes y ! 1) (sizes y ! 2)
                 (\<lambda>a b j. \<Sum>i\<leftarrow>[0..<joint (sizes x ! 1) (sizes y ! 0)].
                            at2 x a (bpos (sizes x ! 1) i) * at3 y (bpos (sizes y ! 0) i) b j))
      else Inl RuntimeError)"

definition einsum_ai_bi :: "arr \<Rightarrow> arr \<Rightarrow> error + arr" where
  "einsum_ai_bi x y =
     (if dim x = 2 \<and> dim y = 2 \<and> sizes x ! 1 = sizes y ! 1
      then Inr (tabulate3 (sizes x ! 0) (sizes y ! 0) (sizes x ! 1)
                 (\<lambda>a b i. at2 x a i * at2 y b i))
      else if dim x = 2 \<and> dim y = 2 \<and> fits (sizes x ! 1) (sizes y ! 1)
      then Inr (tabulate3 (sizes x ! 0) (sizes y ! 0) (joint (sizes x ! 1) (sizes y ! 1))
                 (\<lambda>a b i. at2 x a (bpos (sizes x ! 1) i) * at2 y b (bpos (sizes y ! 1) i)))
      else Inl RuntimeError)"

definition einsum_jk_aj :: "arr \<Rightarrow> arr \<Rightarrow> error + arr" where
  "einsum_jk_aj x u =
     (if dim x = 2 \<and> dim u = 2 \<and> sizes x ! 0 = sizes u ! 1
      then Inr (tabulate2 (sizes u ! 0) (sizes x ! 1)
                 (\<lambda>a k. \<Sum>j\<leftarrow>[0..<sizes x ! 0]. at2 x j k * at2 u a j))
      else if dim x = 2 \<and> dim u = 2 \<and> fits (sizes x ! 0) (sizes u ! 1)
      then Inr (tabulate2 (sizes u ! 0) (sizes x ! 1)
                 (\<lambda>a k. \<Sum>j\<leftarrow>[0..<joint (sizes x ! 0) (sizes u ! 1)].
                          at2 x (bpos (sizes x ! 0) j) k * at2 u a (bpos (sizes u ! 1) j)))
      else Inl RuntimeError)"

definition einsum_ijk_aj :: "arr \<Rightarrow> arr \<Rightarrow> error + arr" where
  "einsum_ijk_aj x u =
     (if dim x = 3 \<and> dim u = 2 \<and> sizes x ! 1 = sizes u ! 1
      then Inr (tabulate3 (sizes x ! 0) (sizes u ! 0) (sizes x ! 2)
                 (\<lambda>i a k. \<Sum>j\<leftarrow>[0..<sizes x ! 1]. at3 x i j k * at2 u a j))
      else if dim x = 3 \<and> dim u = 2 \<and> fits (sizes x ! 1) (sizes u ! 1)
      then Inr (tabulate3 (sizes x ! 0) (sizes u ! 0) (sizes x ! 2)
                 (\<lambda>i a k. \<Sum>j\<leftarrow>[0..<joint (sizes x ! 1) (sizes u ! 1)].
                            at3 x i (bpos (sizes x ! 1) j) k * at2 u a (bpos (sizes u ! 1) j)))
      else Inl RuntimeError)"

text \<open>\<^verbatim>\<open>t[..., 0]\<close>: the entries at position 0 of the last axis.\<close>

definition select_last0 :: "arr \<Rightarrow> error + arr" where
  "select_last0 t =
     (if sizes t = [] \<or> last (sizes t) = 0 then Inl IndexError
      else Inr \<lparr>sizes = butlast (sizes t),
                elems = map (\<lambda>n. elems t ! (n * last (sizes t)))
                          [0..<prod_list (butlast (sizes t))]\<rparr>)"

section \<open>The network\<close>

text \<open>
  \<^verbatim>\<open>Tensor\<close> of \<^verbatim>\<open>tensor.py\<close>: the cores, the optional factor matrices and the index
  labels, one of each per mode.
\<close>

record Tensor =
  cores :: "arr list"
  Us :: "arr option list"
  idxs :: "nat list list"

definition ndim :: "Tensor \<Rightarrow> nat" where
  "ndim t = length (cores t)"

text \<open>
  The property \<^verbatim>\<open>shape\<close>: per mode the row count of the factor, and without a factor the
  second-to-last axis of the core.
\<close>

definition mode_size :: "arr \<Rightarrow> arr option \<Rightarrow> error + nat" where
  "mode_size c u =
     (case u of
        None \<Rightarrow> (if 2 \<le> dim c then Inr (sizes c ! (dim c - 2)) else Inl IndexError)
      | Some m \<Rightarrow> py_get (sizes m) 0)"

fun shape_from :: "arr list \<Rightarrow> arr option list \<Rightarrow> error + nat list" where
  "shape_from [] us = Inr []"
| "shape_from (c # cs) [] = Inl IndexError"
| "shape_from (c # cs) (u # us) =
     bind_e (mode_size c u) (\<lambda>s. bind_e (shape_from cs us) (\<lambda>ss. Inr (s # ss)))"

definition shape :: "Tensor \<Rightarrow> error + nat list" where
  "shape t = shape_from (cores t) (Us t)"

text \<open>
  The constructor on a list of cores (lines 21 to 29 and 50 to 62): every core has two or
  three axes, and the last axis of a core is the first axis of a following three-axis core,
  or the second of a following two-axis one.
\<close>

fun ranks_match :: "arr list \<Rightarrow> bool" where
  "ranks_match (c # d # cs) =
     (\<not> ((dim d = 3 \<and> last (sizes c) \<noteq> sizes d ! 0) \<or> (dim d = 2 \<and> last (sizes c) \<noteq> sizes d ! 1))
      \<and> ranks_match (d # cs))"
| "ranks_match cs = True"

fun check_Us :: "arr list \<Rightarrow> arr option list \<Rightarrow> error + unit" where
  "check_Us [] us = Inr ()"
| "check_Us (c # cs) [] = Inl IndexError"
| "check_Us (c # cs) (None # us) = check_Us cs us"
| "check_Us (c # cs) (Some u # us) =
     (if dim u \<noteq> 2 then Inl AssertionError
      else if sizes c ! 1 \<noteq> sizes u ! 1 then Inl AssertionError
      else check_Us cs us)"

definition arange :: "nat \<Rightarrow> nat list" where
  "arange n = [0..<n]"

definition Tensor_of_cores ::
  "arr list \<Rightarrow> arr option list option \<Rightarrow> nat list list option \<Rightarrow> error + Tensor" where
  "Tensor_of_cores cs us ix =
     (if \<not> list_all (\<lambda>d. 2 \<le> dim d \<and> dim d \<le> 3) cs then Inl ValueError
      else if \<not> ranks_match cs then Inl ValueError
      else bind_e (case us of
                     Some us' \<Rightarrow> bind_e (check_Us cs us') (\<lambda>_. Inr us')
                   | None \<Rightarrow> Inr (replicate (length cs) None))
             (\<lambda>us'. bind_e (case ix of
                               Some ix' \<Rightarrow> Inr ix'
                             | None \<Rightarrow> bind_e (shape_from cs us') (\<lambda>sh. Inr (map arange sh)))
                      (\<lambda>ix'. Inr \<lparr>cores = cs, Us = us', idxs = ix'\<rparr>)))"

text \<open>
  The constructor on a dense array without \<^verbatim>\<open>eps\<close> (lines 33 to 47). The loop over
  \<^verbatim>\<open>n\<close> carries the array \<^verbatim>\<open>data\<close> and yields the cores it appends, in order.
\<close>

definition init_step :: "nat list \<Rightarrow> nat \<Rightarrow> arr \<Rightarrow> error + arr \<times> arr" where
  "init_step sh n d =
     (if sizes d ! 0 < sizes d ! 1
      then bind_e (py_floordiv (sizes d ! 0) (sh ! (n - 1))) (\<lambda>q.
           bind_e (reshape (eye (sizes d ! 0)) [Some q, Some (sh ! (n - 1)), Some (sizes d ! 0)]) (\<lambda>c.
           bind_e (py_floordiv (sizes d ! 1) (sh ! n)) (\<lambda>q'.
           bind_e (reshape d [Some (sizes d ! 0 * sh ! n), Some q']) (\<lambda>d'. Inr (c, d')))))
      else bind_e (py_floordiv (sizes d ! 0) (sh ! (n - 1))) (\<lambda>q.
           bind_e (reshape d [Some q, Some (sh ! (n - 1)), Some (sizes d ! 1)]) (\<lambda>c.
           bind_e (py_floordiv (sizes d ! 1) (sh ! n)) (\<lambda>q'.
           bind_e (reshape (eye (sizes d ! 1)) [Some (sizes d ! 1 * sh ! n), Some q']) (\<lambda>d'.
           Inr (c, d'))))))"

fun init_loop :: "nat list \<Rightarrow> nat list \<Rightarrow> arr \<Rightarrow> error + arr list \<times> arr" where
  "init_loop sh [] d = Inr ([], d)"
| "init_loop sh (n # ns) d =
     bind_e (init_step sh n d) (\<lambda>(c, d').
     bind_e (init_loop sh ns d') (\<lambda>(cs, dd). Inr (c # cs, dd)))"

text \<open>The loop followed by the last core, which line 47 appends.\<close>

definition init_cores :: "nat list \<Rightarrow> nat list \<Rightarrow> arr \<Rightarrow> error + arr list" where
  "init_cores sh ns d =
     bind_e (init_loop sh ns d) (\<lambda>(cs, dd).
     bind_e (py_floordiv (sizes dd ! 0) (sh ! (length sh - 1))) (\<lambda>q.
     bind_e (reshape dd [Some q, Some (sh ! (length sh - 1)), Some 1]) (\<lambda>c. Inr (cs @ [c]))))"

definition Tensor_of_dense :: "arr \<Rightarrow> error + Tensor" where
  "Tensor_of_dense a =
     (let N = dim a; sh = sizes a in
      bind_e (py_get sh 0) (\<lambda>s0.
      bind_e (reshape a [Some s0, None]) (\<lambda>d.
      bind_e (init_cores sh [1..<N] d) (\<lambda>cs.
      bind_e (shape_from cs (replicate (length cs) None)) (\<lambda>shp.
      Inr \<lparr>cores = cs, Us = replicate (length cs) None, idxs = map arange shp\<rparr>)))))"

text \<open>\<^verbatim>\<open>full_tucker\<close> and \<^verbatim>\<open>full\<close> (lines 459 to 498).\<close>

fun expand_cores :: "arr list \<Rightarrow> arr option list \<Rightarrow> error + arr list" where
  "expand_cores [] us = Inr []"
| "expand_cores (c # cs) [] = Inl IndexError"
| "expand_cores (c # cs) (u # us) =
     bind_e (case u of
               Some m \<Rightarrow> (if dim c = 2 then einsum_jk_aj c m else einsum_ijk_aj c m)
             | None \<Rightarrow> Inr c)
       (\<lambda>c'. bind_e (expand_cores cs us) (\<lambda>cs'. Inr (c' # cs')))"

definition full_tucker :: "Tensor \<Rightarrow> error + Tensor" where
  "full_tucker t =
     bind_e (expand_cores (cores t) (Us t)) (\<lambda>cs. Tensor_of_cores cs None (Some (idxs t)))"

fun full_loop :: "arr \<Rightarrow> arr list \<Rightarrow> error + arr" where
  "full_loop factor [] = Inr factor"
| "full_loop factor (c # cs) =
     bind_e (if dim c = 2 then einsum_ai_bi factor c else einsum_ai_ibj factor c) (\<lambda>f.
     bind_e (reshape f [None, Some (last (sizes c))]) (\<lambda>f'. full_loop f' cs))"

definition full :: "Tensor \<Rightarrow> error + arr" where
  "full t =
     bind_e (full_tucker t) (\<lambda>t'.
     bind_e (full_loop (ones [1, 1]) (cores t')) (\<lambda>factor.
     bind_e (select_last0 factor) (\<lambda>factor'.
     reshape factor' (map (\<lambda>c. Some (sizes c ! (dim c - 2))) (cores t')))))"

section \<open>Elementwise arithmetic\<close>

text \<open>Further array operations that \<^verbatim>\<open>__add__\<close> and \<^verbatim>\<open>__mul__\<close> call.\<close>

definition shp :: "arr \<Rightarrow> nat \<Rightarrow> error + nat" where
  "shp t k = py_get (sizes t) k"

text \<open>\<^verbatim>\<open>torch.cat([x, y], dim=d)\<close> on two three-axis arrays, and on two matrices for \<open>d = 1\<close>.\<close>

definition cat_dim0 :: "arr \<Rightarrow> arr \<Rightarrow> error + arr" where
  "cat_dim0 x y =
     (if dim x = 3 \<and> dim y = 3 \<and> sizes x ! 1 = sizes y ! 1 \<and> sizes x ! 2 = sizes y ! 2
      then Inr (tabulate3 (sizes x ! 0 + sizes y ! 0) (sizes x ! 1) (sizes x ! 2)
                 (\<lambda>i j k. if i < sizes x ! 0 then at3 x i j k else at3 y (i - sizes x ! 0) j k))
      else Inl RuntimeError)"

definition cat_dim1 :: "arr \<Rightarrow> arr \<Rightarrow> error + arr" where
  "cat_dim1 x y =
     (if dim x = 3 \<and> dim y = 3 \<and> sizes x ! 0 = sizes y ! 0 \<and> sizes x ! 2 = sizes y ! 2
      then Inr (tabulate3 (sizes x ! 0) (sizes x ! 1 + sizes y ! 1) (sizes x ! 2)
                 (\<lambda>i j k. if j < sizes x ! 1 then at3 x i j k else at3 y i (j - sizes x ! 1) k))
      else Inl RuntimeError)"

definition cat_dim2 :: "arr \<Rightarrow> arr \<Rightarrow> error + arr" where
  "cat_dim2 x y =
     (if dim x = 3 \<and> dim y = 3 \<and> sizes x ! 0 = sizes y ! 0 \<and> sizes x ! 1 = sizes y ! 1
      then Inr (tabulate3 (sizes x ! 0) (sizes x ! 1) (sizes x ! 2 + sizes y ! 2)
                 (\<lambda>i j k. if k < sizes x ! 2 then at3 x i j k else at3 y i j (k - sizes x ! 2)))
      else Inl RuntimeError)"

definition cat_cols :: "arr \<Rightarrow> arr \<Rightarrow> error + arr" where
  "cat_cols x y =
     (if dim x = 2 \<and> dim y = 2 \<and> sizes x ! 0 = sizes y ! 0
      then Inr (tabulate2 (sizes x ! 0) (sizes x ! 1 + sizes y ! 1)
                 (\<lambda>i j. if j < sizes x ! 1 then at2 x i j else at2 y i (j - sizes x ! 1)))
      else Inl RuntimeError)"

text \<open>\<^verbatim>\<open>torch.sum(x, dim=d, keepdim=True)\<close> on a three-axis array, for \<open>d = 0\<close> and \<open>d = 2\<close>.\<close>

definition sum_dim0 :: "arr \<Rightarrow> error + arr" where
  "sum_dim0 x =
     (if dim x = 3
      then Inr (tabulate3 1 (sizes x ! 1) (sizes x ! 2)
                 (\<lambda>i j k. \<Sum>a\<leftarrow>[0..<sizes x ! 0]. at3 x a j k))
      else Inl IndexError)"

definition sum_dim2 :: "arr \<Rightarrow> error + arr" where
  "sum_dim2 x =
     (if dim x = 3
      then Inr (tabulate3 (sizes x ! 0) (sizes x ! 1) 1
                 (\<lambda>i j k. \<Sum>c\<leftarrow>[0..<sizes x ! 2]. at3 x i j c))
      else Inl IndexError)"

text \<open>\<^verbatim>\<open>x.data *= r\<close> on an array.\<close>

definition scale :: "real \<Rightarrow> arr \<Rightarrow> arr" where
  "scale r x = \<lparr>sizes = sizes x, elems = map (\<lambda>v. v * r) (elems x)\<rparr>"

text \<open>Row-major decoding of a flat position, and the flat position of a list of indices.\<close>

fun unravel :: "nat list \<Rightarrow> nat \<Rightarrow> nat list" where
  "unravel [] n = []"
| "unravel (s # ss) n = (n div prod_list ss) # unravel ss (n mod prod_list ss)"

fun ravel :: "nat list \<Rightarrow> nat list \<Rightarrow> nat" where
  "ravel (s # ss) (i # is) = i * prod_list ss + ravel ss is"
| "ravel ss is = 0"

text \<open>
  The shape of \<^verbatim>\<open>x + y\<close> on arrays: the two shapes are aligned at their last axes, and
  axes that meet must fit. The two lists are the shapes reversed.
\<close>

fun broadcast_rev :: "nat list \<Rightarrow> nat list \<Rightarrow> nat list option" where
  "broadcast_rev [] ys = Some ys"
| "broadcast_rev (x # xs) [] = Some (x # xs)"
| "broadcast_rev (x # xs) (y # ys) =
     (if fits x y then map_option (\<lambda>r. joint x y # r) (broadcast_rev xs ys) else None)"

text \<open>
  The entry of the operand of shape \<open>sh\<close> that the sum reads at the list \<open>ix\<close> of indices
  of the result.
\<close>

definition read_broadcast :: "arr \<Rightarrow> nat list \<Rightarrow> real" where
  "read_broadcast x ix =
     elems x ! ravel (sizes x) (map2 bpos (sizes x) (drop (length ix - dim x) ix))"

text \<open>\<^verbatim>\<open>x + y\<close> on arrays, for operands of one shape and for operands that broadcast.\<close>

definition add_arr :: "arr \<Rightarrow> arr \<Rightarrow> error + arr" where
  "add_arr x y =
     (if sizes x = sizes y
      then Inr \<lparr>sizes = sizes x, elems = map2 (+) (elems x) (elems y)\<rparr>
      else case broadcast_rev (rev (sizes x)) (rev (sizes y)) of
             None \<Rightarrow> Inl RuntimeError
           | Some r \<Rightarrow>
               Inr \<lparr>sizes = rev r,
                    elems = map (\<lambda>n. read_broadcast x (unravel (rev r) n)
                                    + read_broadcast y (unravel (rev r) n))
                              [0..<prod_list (rev r)]\<rparr>)"

text \<open>The two remaining contractions of the arithmetic.\<close>

definition einsum_ijk_abc :: "arr \<Rightarrow> arr \<Rightarrow> error + arr" where
  "einsum_ijk_abc x y =
     (if dim x = 3 \<and> dim y = 3
      then (let sh = [sizes x ! 0, sizes y ! 0, sizes x ! 1, sizes y ! 1, sizes x ! 2, sizes y ! 2]
            in Inr \<lparr>sizes = sh,
                    elems = map (\<lambda>n. let ix = unravel sh n
                                      in at3 x (ix ! 0) (ix ! 2) (ix ! 4) * at3 y (ix ! 1) (ix ! 3) (ix ! 5))
                              [0..<prod_list sh]\<rparr>)
      else Inl RuntimeError)"

definition einsum_ij_ik :: "arr \<Rightarrow> arr \<Rightarrow> error + arr" where
  "einsum_ij_ik x y =
     (if dim x = 2 \<and> dim y = 2 \<and> sizes x ! 0 = sizes y ! 0
      then Inr (tabulate3 (sizes x ! 0) (sizes x ! 1) (sizes y ! 1) (\<lambda>i j k. at2 x i j * at2 y i k))
      else if dim x = 2 \<and> dim y = 2 \<and> fits (sizes x ! 0) (sizes y ! 0)
      then Inr (tabulate3 (joint (sizes x ! 0) (sizes y ! 0)) (sizes x ! 1) (sizes y ! 1)
                 (\<lambda>i j k. at2 x (bpos (sizes x ! 0) i) j * at2 y (bpos (sizes y ! 0) i) k))
      else Inl RuntimeError)"

text \<open>
  Modelled from the spec: \<^verbatim>\<open>tn.core_kron\<close>, which \<^verbatim>\<open>__mul__\<close> calls and which is defined in a
  file that is not among the sources. The specification (4.4) has the cores of an elementwise
  product combined by a Kronecker product, with the logical shape kept and the rank the
  product of the two ranks: the Kronecker product of the two rank axes, taken slice by slice
  along the free axis, which the two cores share.
\<close>

definition kron_core :: "arr \<Rightarrow> arr \<Rightarrow> arr" where
  "kron_core x y =
     tabulate3 (sizes x ! 0 * sizes y ! 0) (sizes x ! 1) (sizes x ! 2 * sizes y ! 2)
       (\<lambda>i j k. at3 x (i div sizes y ! 0) j (k div sizes y ! 2)
                * at3 y (i mod sizes y ! 0) j (k mod sizes y ! 2))"

definition core_kron :: "arr \<Rightarrow> arr \<Rightarrow> error + arr" where
  "core_kron x y =
     (if dim x = 3 \<and> dim y = 3 \<and> sizes x ! 1 = sizes y ! 1 then Inr (kron_core x y)
      else Inl RuntimeError)"

text \<open>A loop that builds a list and stops at the first exception.\<close>

fun map_e :: "('a \<Rightarrow> error + 'b) \<Rightarrow> 'a list \<Rightarrow> error + 'b list" where
  "map_e f [] = Inr []"
| "map_e f (x # xs) = bind_e (f x) (\<lambda>y. bind_e (map_e f xs) (\<lambda>ys. Inr (y # ys)))"

text \<open>\<^verbatim>\<open>clone\<close> (lines 510 to 527).\<close>

definition clone :: "Tensor \<Rightarrow> error + Tensor" where
  "clone t =
     bind_e (map_e (\<lambda>n. py_get (Us t) n) [0..<ndim t]) (\<lambda>us.
     Tensor_of_cores (cores t) (Some us) (Some (idxs t)))"

text \<open>The right operand of an operator: a network or a number.\<close>

datatype operand = Net Tensor | Scalar real

text \<open>\<^verbatim>\<open>__add__\<close> (lines 64 to 99). \<open>add_mode\<close> is the body of the loop over the modes.\<close>

definition add_mode :: "nat \<Rightarrow> arr \<Rightarrow> arr option \<Rightarrow> arr \<Rightarrow> arr option \<Rightarrow> error + arr \<times> arr option" where
  "add_mode sn core1 U1 core2 U2 =
     (if U1 \<noteq> None \<and> U2 \<noteq> None
      then bind_e (shp core2 0) (\<lambda>a2. bind_e (shp core1 1) (\<lambda>b1. bind_e (shp core1 2) (\<lambda>c1.
           bind_e (cat_dim0 core1 (zeros [a2, b1, c1])) (\<lambda>s1.
           bind_e (shp core1 0) (\<lambda>a1. bind_e (shp core2 2) (\<lambda>c2.
           bind_e (cat_dim2 s1 (zeros [a1 + a2, b1, c2])) (\<lambda>slice1.
           bind_e (shp core2 1) (\<lambda>b2.
           bind_e (cat_dim0 (zeros [a1, b2, c2]) core2) (\<lambda>s2.
           bind_e (cat_dim2 (zeros [a1 + a2, b2, c1]) s2) (\<lambda>slice2.
           bind_e (cat_dim1 slice1 slice2) (\<lambda>c.
           bind_e (cat_cols (the U1) (the U2)) (\<lambda>u. Inr (c, Some u)))))))))))))
      else bind_e (case U1 of Some u \<Rightarrow> einsum_ijk_aj core1 u | None \<Rightarrow> Inr core1) (\<lambda>core1.
           bind_e (case U2 of Some u \<Rightarrow> einsum_ijk_aj core2 u | None \<Rightarrow> Inr core2) (\<lambda>core2.
           bind_e (shp core2 0) (\<lambda>a2. bind_e (shp core1 2) (\<lambda>c1.
           bind_e (cat_dim0 core1 (zeros [a2, sn, c1])) (\<lambda>column1.
           bind_e (shp core1 0) (\<lambda>a1. bind_e (shp core2 2) (\<lambda>c2.
           bind_e (cat_dim0 (zeros [a1, sn, c2]) core2) (\<lambda>column2.
           bind_e (cat_dim2 column1 column2) (\<lambda>c. Inr (c, None)))))))))))"

definition add_mode_at :: "Tensor \<Rightarrow> Tensor \<Rightarrow> nat list \<Rightarrow> nat \<Rightarrow> error + arr \<times> arr option" where
  "add_mode_at s t sh n =
     bind_e (py_get (cores s) n) (\<lambda>core1. bind_e (py_get (cores t) n) (\<lambda>core2.
     bind_e (py_get (Us s) n) (\<lambda>U1. bind_e (py_get (Us t) n) (\<lambda>U2.
     bind_e (py_get sh n) (\<lambda>sn. add_mode sn core1 U1 core2 U2)))))"

definition add_nets :: "Tensor \<Rightarrow> Tensor \<Rightarrow> error + Tensor" where
  "add_nets s t =
     bind_e (shape s) (\<lambda>sh. bind_e (shape t) (\<lambda>sh'.
     if sh \<noteq> sh' then Inl ValueError
     else if ndim s = 1
       then bind_e (full_tucker s) (\<lambda>s'. bind_e (py_get (cores s') 0) (\<lambda>c1.
            bind_e (full_tucker t) (\<lambda>t'. bind_e (py_get (cores t') 0) (\<lambda>c2.
            bind_e (add_arr c1 c2) (\<lambda>c. Tensor_of_cores [c] None None)))))
       else bind_e (map_e (add_mode_at s t sh) [0..<ndim s]) (\<lambda>cus.
            let cs = map fst cus; us = map snd cus in
            bind_e (py_get cs 0) (\<lambda>c0. bind_e (sum_dim0 c0) (\<lambda>c0'.
            let cs' = cs[0 := c0'] in
            bind_e (sum_dim2 (last cs')) (\<lambda>cl.
            Tensor_of_cores (cs'[length cs' - 1 := cl]) (Some us) None))))))"

definition add :: "Tensor \<Rightarrow> operand \<Rightarrow> error + Tensor" where
  "add s other =
     (case other of
        Net t \<Rightarrow> add_nets s t
      | Scalar factor \<Rightarrow>
          bind_e (shape s) (\<lambda>sh.
          bind_e (Tensor_of_cores (map (\<lambda>n. ones [1, sh ! n, 1]) [0..<ndim s]) None None) (\<lambda>t.
          bind_e (py_get (cores t) 0) (\<lambda>c0.
          add_nets s (t\<lparr>cores := (cores t)[0 := scale factor c0]\<rparr>)))))"

text \<open>\<^verbatim>\<open>__mul__\<close> (lines 115 to 142) and the operators defined from the two.\<close>

definition mul_mode :: "nat \<Rightarrow> arr \<Rightarrow> arr option \<Rightarrow> arr \<Rightarrow> arr option \<Rightarrow> error + arr \<times> arr option" where
  "mul_mode sn core1 U1 core2 U2 =
     bind_e (if U1 \<noteq> None \<and> U2 \<noteq> None
             then bind_e (shp core1 1) (\<lambda>b1. bind_e (shp core2 1) (\<lambda>b2. Inr (b1 * b2 < sn)))
             else Inr False) (\<lambda>cheap.
     if cheap
     then bind_e (einsum_ijk_abc core1 core2) (\<lambda>e.
          bind_e (reshape e [Some (sizes core1 ! 0 * sizes core2 ! 0),
                             Some (sizes core1 ! 1 * sizes core2 ! 1),
                             Some (sizes core1 ! 2 * sizes core2 ! 2)]) (\<lambda>c.
          bind_e (einsum_ij_ik (the U1) (the U2)) (\<lambda>e'.
          bind_e (shp (the U1) 0) (\<lambda>i.
          bind_e (reshape e' [Some i, None]) (\<lambda>u. Inr (c, Some u))))))
     else bind_e (case U1 of Some u \<Rightarrow> einsum_ijk_aj core1 u | None \<Rightarrow> Inr core1) (\<lambda>core1.
          bind_e (case U2 of Some u \<Rightarrow> einsum_ijk_aj core2 u | None \<Rightarrow> Inr core2) (\<lambda>core2.
          bind_e (core_kron core1 core2) (\<lambda>c. Inr (c, None)))))"

definition mul_mode_at :: "Tensor \<Rightarrow> Tensor \<Rightarrow> nat list \<Rightarrow> nat \<Rightarrow> error + arr \<times> arr option" where
  "mul_mode_at s t sh n =
     bind_e (py_get (Us s) n) (\<lambda>U1. bind_e (py_get (Us t) n) (\<lambda>U2.
     bind_e (py_get (cores s) n) (\<lambda>core1. bind_e (py_get (cores t) n) (\<lambda>core2.
     bind_e (py_get sh n) (\<lambda>sn. mul_mode sn core1 U1 core2 U2)))))"

definition mul :: "Tensor \<Rightarrow> operand \<Rightarrow> error + Tensor" where
  "mul s other =
     (case other of
        Scalar r \<Rightarrow>
          bind_e (clone s) (\<lambda>result. bind_e (py_get (cores result) 0) (\<lambda>c0.
          Inr (result\<lparr>cores := (cores result)[0 := scale r c0]\<rparr>)))
      | Net t \<Rightarrow>
          bind_e (shape s) (\<lambda>sh. bind_e (shape t) (\<lambda>sh'.
          if sh \<noteq> sh' then Inl ValueError
          else bind_e (map_e (mul_mode_at s t sh) [0..<ndim s]) (\<lambda>cus.
               Tensor_of_cores (map fst cus) (Some (map snd cus)) None))))"

definition sub :: "Tensor \<Rightarrow> Tensor \<Rightarrow> error + Tensor" where
  "sub s t = bind_e (mul t (Scalar (- 1))) (\<lambda>t'. add s (Net t'))"

text \<open>
  \<^verbatim>\<open>__truediv__\<close> (lines 147 and 148) computes \<^verbatim>\<open>1./other\<close> first: division by the
  number 0 raises, and a network has no reflected division, so \<^verbatim>\<open>1./other\<close> raises
  \<^verbatim>\<open>TypeError\<close> for a network.
\<close>

definition truediv :: "Tensor \<Rightarrow> operand \<Rightarrow> error + Tensor" where
  "truediv s other =
     (case other of
        Scalar r \<Rightarrow> if r = 0 then Inl ZeroDivisionError else mul s (Scalar (1 / r))
      | Net t \<Rightarrow> Inl TypeError)"

section \<open>Networks in tensor-train form\<close>

text \<open>
  The invariants of a network without factors whose cores all have three axes: the chain
  enters with rank \<open>r\<close>, the last axis of a core is the first axis of the next, the last
  rank is 1, every rank is positive, and the entries of a core fill its shape.
\<close>

fun tt_chain :: "nat \<Rightarrow> arr list \<Rightarrow> bool" where
  "tt_chain r [] = (r = 1)"
| "tt_chain r (c # cs) =
     (dim c = 3 \<and> sizes c ! 0 = r \<and> 0 < sizes c ! 2
      \<and> length (elems c) = sizes c ! 0 * sizes c ! 1 * sizes c ! 2
      \<and> tt_chain (sizes c ! 2) cs)"

text \<open>
  What the contraction loop of \<^verbatim>\<open>full\<close> computes, entry by entry: from the entries \<open>g\<close> of
  the matrix carried so far to the entries of the matrix after the cores \<open>cs\<close>.
\<close>

fun chainf :: "(nat \<Rightarrow> nat \<Rightarrow> real) \<Rightarrow> arr list \<Rightarrow> nat \<Rightarrow> nat \<Rightarrow> real" where
  "chainf g [] = g"
| "chainf g (c # cs) =
     chainf (\<lambda>i k. \<Sum>l\<leftarrow>[0..<sizes c ! 0]. g (i div sizes c ! 1) l * at3 c l (i mod sizes c ! 1) k) cs"

definition free_sizes :: "arr list \<Rightarrow> nat list" where
  "free_sizes cs = map (\<lambda>c. sizes c ! 1) cs"

definition tt_entries :: "arr list \<Rightarrow> real list" where
  "tt_entries cs = map (\<lambda>n. chainf (\<lambda>i k. 1) cs n 0) [0..<prod_list (free_sizes cs)]"

text \<open>
  The cores that \<^verbatim>\<open>__add__\<close> builds from two networks in tensor-train form, written out:
  the block-diagonal core of lines 92 to 94, the first core summed over its first axis
  (line 97), and the last core summed over its last axis (line 98).
\<close>

definition blockdiag :: "arr \<Rightarrow> arr \<Rightarrow> arr" where
  "blockdiag x y =
     tabulate3 (sizes x ! 0 + sizes y ! 0) (sizes x ! 1) (sizes x ! 2 + sizes y ! 2)
       (\<lambda>i j k. if k < sizes x ! 2
                 then (if i < sizes x ! 0 then at3 x i j k else 0)
                 else (if i < sizes x ! 0 then 0 else at3 y (i - sizes x ! 0) j (k - sizes x ! 2)))"

definition sum0_core :: "arr \<Rightarrow> arr" where
  "sum0_core x = tabulate3 1 (sizes x ! 1) (sizes x ! 2) (\<lambda>i j k. \<Sum>a\<leftarrow>[0..<sizes x ! 0]. at3 x a j k)"

definition sum2_core :: "arr \<Rightarrow> arr" where
  "sum2_core x = tabulate3 (sizes x ! 0) (sizes x ! 1) 1 (\<lambda>i j k. \<Sum>c\<leftarrow>[0..<sizes x ! 2]. at3 x i j c)"

fun add_rest :: "arr list \<Rightarrow> arr list \<Rightarrow> arr list" where
  "add_rest [x] [y] = [sum2_core (blockdiag x y)]"
| "add_rest (x # xs) (y # ys) = blockdiag x y # add_rest xs ys"
| "add_rest xs ys = []"

definition add_cores :: "arr list \<Rightarrow> arr list \<Rightarrow> arr list" where
  "add_cores xs ys =
     (if length xs = 1 then [\<lparr>sizes = sizes (hd xs), elems = map2 (+) (elems (hd xs)) (elems (hd ys))\<rparr>]
      else sum0_core (blockdiag (hd xs) (hd ys)) # add_rest (tl xs) (tl ys))"

section \<open>Item access\<close>

text \<open>
  The entries of an indexing key: an integer, a slice with optional start, stop and step,
  \<^verbatim>\<open>None\<close>, an index array, \<^verbatim>\<open>Ellipsis\<close>, or an object of another kind.
\<close>

datatype key_entry =
  KInt int | KSlice "int option" "int option" "int option" | KNone | KIndex "int list"
  | KEllipsis | KOther

definition full_slice :: key_entry where
  "full_slice = KSlice None None None"

text \<open>Positions along an axis of length \<open>n\<close>: of one index, which may count from the end,
  and of a slice, whose step torch requires to be positive.\<close>

definition norm_index :: "nat \<Rightarrow> int \<Rightarrow> error + nat" where
  "norm_index n k =
     (if 0 \<le> k \<and> k < int n then Inr (nat k)
      else if k < 0 \<and> - int n \<le> k then Inr (nat (k + int n))
      else Inl IndexError)"

definition clamp_bound :: "nat \<Rightarrow> int \<Rightarrow> nat" where
  "clamp_bound n k = (if k < 0 then nat (max 0 (k + int n)) else min n (nat k))"

definition slice_positions :: "nat \<Rightarrow> int option \<Rightarrow> int option \<Rightarrow> int option \<Rightarrow> error + nat list" where
  "slice_positions n start stop step =
     (let st = (case step of None \<Rightarrow> 1 | Some s \<Rightarrow> s) in
      if st \<le> 0 then Inl ValueError
      else let lo = (case start of None \<Rightarrow> 0 | Some k \<Rightarrow> clamp_bound n k);
               hi = (case stop of None \<Rightarrow> n | Some k \<Rightarrow> clamp_bound n k)
           in Inr (filter (\<lambda>p. (p - lo) mod nat st = 0) [lo..<hi]))"

definition positions :: "nat \<Rightarrow> key_entry \<Rightarrow> error + nat list" where
  "positions n k =
     (case k of
        KSlice a b s \<Rightarrow> slice_positions n a b s
      | KIndex ks \<Rightarrow> map_e (norm_index n) ks
      | _ \<Rightarrow> Inl IndexError)"

text \<open>\<^verbatim>\<open>core[:, key, :]\<close> on a three-axis array and \<^verbatim>\<open>U[key, :]\<close> on a matrix. An integer
  removes the axis; a slice or an index array keeps it.\<close>

definition select_mid :: "arr \<Rightarrow> key_entry \<Rightarrow> error + arr" where
  "select_mid c k =
     (if dim c \<noteq> 3 then Inl IndexError
      else case k of
        KInt z \<Rightarrow> bind_e (norm_index (sizes c ! 1) z) (\<lambda>j.
                   Inr (tabulate2 (sizes c ! 0) (sizes c ! 2) (\<lambda>i l. at3 c i j l)))
      | _ \<Rightarrow> bind_e (positions (sizes c ! 1) k) (\<lambda>ps.
                   Inr (tabulate3 (sizes c ! 0) (length ps) (sizes c ! 2) (\<lambda>i p l. at3 c i (ps ! p) l))))"

definition select_rows :: "arr \<Rightarrow> key_entry \<Rightarrow> error + arr" where
  "select_rows u k =
     (if dim u \<noteq> 2 then Inl IndexError
      else case k of
        KInt z \<Rightarrow> bind_e (norm_index (sizes u ! 0) z) (\<lambda>r.
                   Inr \<lparr>sizes = [sizes u ! 1], elems = map (\<lambda>j. at2 u r j) [0..<sizes u ! 1]\<rparr>)
      | _ \<Rightarrow> bind_e (positions (sizes u ! 0) k) (\<lambda>ps.
                   Inr (tabulate2 (length ps) (sizes u ! 1) (\<lambda>p j. at2 u (ps ! p) j))))"

text \<open>The remaining contractions, and the product that fuses two index arrays (line 400).\<close>

definition einsum_ijk_j :: "arr \<Rightarrow> arr \<Rightarrow> error + arr" where
  "einsum_ijk_j x v =
     (if dim x = 3 \<and> dim v = 1 \<and> sizes x ! 1 = sizes v ! 0
      then Inr (tabulate2 (sizes x ! 0) (sizes x ! 2)
                 (\<lambda>i k. \<Sum>j\<leftarrow>[0..<sizes x ! 1]. at3 x i j k * elems v ! j))
      else if dim x = 3 \<and> dim v = 1 \<and> fits (sizes x ! 1) (sizes v ! 0)
      then Inr (tabulate2 (sizes x ! 0) (sizes x ! 2)
                 (\<lambda>i k. \<Sum>j\<leftarrow>[0..<joint (sizes x ! 1) (sizes v ! 0)].
                          at3 x i (bpos (sizes x ! 1) j) k * elems v ! bpos (sizes v ! 0) j))
      else Inl RuntimeError)"

definition einsum_ij_jk :: "arr \<Rightarrow> arr \<Rightarrow> error + arr" where
  "einsum_ij_jk x y =
     (if dim x = 2 \<and> dim y = 2 \<and> sizes x ! 1 = sizes y ! 0
      then Inr (tabulate2 (sizes x ! 0) (sizes y ! 1)
                 (\<lambda>i k. \<Sum>j\<leftarrow>[0..<sizes x ! 1]. at2 x i j * at2 y j k))
      else if dim x = 2 \<and> dim y = 2 \<and> fits (sizes x ! 1) (sizes y ! 0)
      then Inr (tabulate2 (sizes x ! 0) (sizes y ! 1)
                 (\<lambda>i k. \<Sum>j\<leftarrow>[0..<joint (sizes x ! 1) (sizes y ! 0)].
                          at2 x i (bpos (sizes x ! 1) j) * at2 y (bpos (sizes y ! 0) j) k))
      else Inl RuntimeError)"

definition einsum_ija_ak :: "arr \<Rightarrow> arr \<Rightarrow> error + arr" where
  "einsum_ija_ak x y =
     (if dim x = 3 \<and> dim y = 2 \<and> sizes x ! 2 = sizes y ! 0
      then Inr (tabulate3 (sizes x ! 0) (sizes x ! 1) (sizes y ! 1)
                 (\<lambda>i j k. \<Sum>a\<leftarrow>[0..<sizes x ! 2]. at3 x i j a * at2 y a k))
      else if dim x = 3 \<and> dim y = 2 \<and> fits (sizes x ! 2) (sizes y ! 0)
      then Inr (tabulate3 (sizes x ! 0) (sizes x ! 1) (sizes y ! 1)
                 (\<lambda>i j k. \<Sum>a\<leftarrow>[0..<joint (sizes x ! 2) (sizes y ! 0)].
                            at3 x i j (bpos (sizes x ! 2) a) * at2 y (bpos (sizes y ! 0) a) k))
      else Inl RuntimeError)"

text \<open>
  Line 400: the product of \<^verbatim>\<open>a1[:, :, :, None]\<close> and \<^verbatim>\<open>a2.permute(1, 0, 2)[None, :, :, :]\<close>,
  which broadcasts, summed over its third axis.
\<close>

definition fuse_index :: "arr \<Rightarrow> arr \<Rightarrow> error + arr" where
  "fuse_index a1 a2 =
     (if dim a1 = 3 \<and> dim a2 = 3 \<and> sizes a1 ! 1 = sizes a2 ! 1 \<and> sizes a1 ! 2 = sizes a2 ! 0
      then Inr (tabulate3 (sizes a1 ! 0) (sizes a1 ! 1) (sizes a2 ! 2)
                 (\<lambda>r p t. \<Sum>s\<leftarrow>[0..<sizes a1 ! 2]. at3 a1 r p s * at3 a2 s p t))
      else if dim a1 = 3 \<and> dim a2 = 3 \<and> fits (sizes a1 ! 1) (sizes a2 ! 1)
              \<and> fits (sizes a1 ! 2) (sizes a2 ! 0)
      then Inr (tabulate3 (sizes a1 ! 0) (joint (sizes a1 ! 1) (sizes a2 ! 1)) (sizes a2 ! 2)
                 (\<lambda>r p t. \<Sum>s\<leftarrow>[0..<joint (sizes a1 ! 2) (sizes a2 ! 0)].
                            at3 a1 r (bpos (sizes a1 ! 1) p) (bpos (sizes a1 ! 2) s)
                            * at3 a2 (bpos (sizes a2 ! 0) s) (bpos (sizes a2 ! 1) p) t))
      else Inl RuntimeError)"

text \<open>\<^verbatim>\<open>_process_key\<close> (lines 277 to 296), on a key that is a sequence of entries.\<close>

fun expand_ellipsis :: "nat \<Rightarrow> key_entry list \<Rightarrow> key_entry list" where
  "expand_ellipsis m [] = []"
| "expand_ellipsis m (k # ks) =
     (if k = KEllipsis then replicate m full_slice @ ks else k # expand_ellipsis m ks)"

definition process_key :: "Tensor \<Rightarrow> key_entry list \<Rightarrow> error + key_entry list" where
  "process_key t key =
     (let nonecount = length (filter (\<lambda>k. k = KNone) key);
          key' = expand_ellipsis (nat (int (ndim t) - (int (length key) - int nonecount) + 1)) key
      in if list_ex (\<lambda>k. k = KEllipsis) key' then Inl IndexError
         else if int (ndim t) - (int (length key') - int nonecount) < 0 then Inl IndexError
         else Inr (key' @ replicate (nat (int (ndim t) - (int (length key') - int nonecount))) full_slice))"

text \<open>
  The loop of \<^verbatim>\<open>__getitem__\<close> (lines 331 to 410) and its state: the mode of the last
  entry, the flag \<^verbatim>\<open>index_done\<close>, the two pending factors, the cores and factors of the
  result, and the position \<^verbatim>\<open>counter\<close> in the network.
\<close>

datatype mode = ModeInt | ModeIndex | ModeSlice | ModeNone

text \<open>
  Where an array of the result comes from. The output of \<^verbatim>\<open>einsum\<close>, \<^verbatim>\<open>sum\<close>, \<^verbatim>\<open>eye\<close> or
  of indexing by an index array is newly allocated; \<^verbatim>\<open>core\<close> on line 360 is the core of the
  receiver at the position \<^verbatim>\<open>counter\<close>, the object itself; \<^verbatim>\<open>core[:, key, :]\<close> and
  \<^verbatim>\<open>U[key, :]\<close> with a slice \<^verbatim>\<open>key\<close> are views, which share the storage of the array they
  are taken from. The state keeps one origin for each core and each factor of the result
  (\<open>Allocated\<close> where there is no factor).
\<close>

datatype origin = Allocated | Receiver_core nat | View_of_core nat | View_of_factor nat

record getitem_state =
  last_mode :: "mode option"
  index_done :: bool
  factor_int :: "arr option"
  factor_index :: "arr option"
  res_cores :: "arr list"
  res_Us :: "arr option list"
  counter :: nat
  core_src :: "origin list"
  U_src :: "origin list"

definition flush_index :: "getitem_state \<Rightarrow> error + getitem_state" where
  "flush_index st =
     (case factor_index st of
        None \<Rightarrow> Inr st
      | Some fi \<Rightarrow>
          bind_e (case factor_int st of
                    None \<Rightarrow> Inr fi
                  | Some fint \<Rightarrow> einsum_ai_ibj fint fi) (\<lambda>fi'.
          Inr (st\<lparr>factor_int := None, factor_index := None,
                  res_cores := res_cores st @ [fi'], res_Us := res_Us st @ [None],
                  core_src := core_src st @ [Allocated], U_src := U_src st @ [Allocated]\<rparr>)))"

text \<open>
  \<^verbatim>\<open>insert_core\<close> (lines 338 to 361). The last component of the argument is the position
  of \<^verbatim>\<open>core\<close> and \<^verbatim>\<open>U\<close> in the receiver (line 387), or \<open>None\<close> for the new array of line
  385.
\<close>

definition insert_core ::
  "getitem_state \<Rightarrow> (arr \<times> key_entry \<times> arr option \<times> nat option) option \<Rightarrow> error + getitem_state" where
  "insert_core st0 arg =
     bind_e (flush_index st0) (\<lambda>st.
     case arg of
       None \<Rightarrow> Inr st
     | Some (core, key, U, src) \<Rightarrow>
         (case factor_int st of
            Some fint \<Rightarrow>
              (case U of
                 None \<Rightarrow> bind_e (select_mid core key) (\<lambda>c. bind_e (einsum_ai_ibj fint c) (\<lambda>c'.
                     Inr (st\<lparr>factor_int := None, res_cores := res_cores st @ [c'],
                             res_Us := res_Us st @ [None],
                             core_src := core_src st @ [Allocated],
                             U_src := U_src st @ [Allocated]\<rparr>)))
               | Some u \<Rightarrow> bind_e (einsum_ai_ibj fint core) (\<lambda>c'. bind_e (select_rows u key) (\<lambda>u'.
                     Inr (st\<lparr>factor_int := None, res_cores := res_cores st @ [c'],
                             res_Us := res_Us st @ [Some u'],
                             core_src := core_src st @ [Allocated],
                             U_src := U_src st @ [case src of Some n \<Rightarrow> View_of_factor n
                                                  | None \<Rightarrow> Allocated]\<rparr>))))
          | None \<Rightarrow>
              (case U of
                 None \<Rightarrow> bind_e (select_mid core key) (\<lambda>c.
                     Inr (st\<lparr>res_cores := res_cores st @ [c], res_Us := res_Us st @ [None],
                             core_src := core_src st @ [case src of Some n \<Rightarrow> View_of_core n
                                                        | None \<Rightarrow> Allocated],
                             U_src := U_src st @ [Allocated]\<rparr>))
               | Some u \<Rightarrow> bind_e (select_rows u key) (\<lambda>u'.
                     Inr (st\<lparr>res_cores := res_cores st @ [core], res_Us := res_Us st @ [Some u'],
                             core_src := core_src st @ [case src of Some n \<Rightarrow> Receiver_core n
                                                        | None \<Rightarrow> Allocated],
                             U_src := U_src st @ [case src of Some n \<Rightarrow> View_of_factor n
                                                  | None \<Rightarrow> Allocated]\<rparr>)))))"

definition get_key :: "Tensor \<Rightarrow> nat \<Rightarrow> key_entry \<Rightarrow> error + arr" where
  "get_key t n key =
     bind_e (py_get (Us t) n) (\<lambda>U.
     case U of
       None \<Rightarrow> bind_e (py_get (cores t) n) (\<lambda>c. select_mid c key)
     | Some u \<Rightarrow> bind_e (select_rows u key) (\<lambda>sl. bind_e (py_get (cores t) n) (\<lambda>c.
                  if dim sl = 1 then einsum_ijk_j c sl else einsum_ijk_aj c sl)))"

definition mode_of :: "key_entry \<Rightarrow> error + mode" where
  "mode_of k =
     (case k of
        KIndex ks \<Rightarrow> Inr ModeIndex
      | KNone \<Rightarrow> Inr ModeNone
      | KInt z \<Rightarrow> Inr ModeInt
      | KSlice a b s \<Rightarrow> Inr ModeSlice
      | _ \<Rightarrow> Inl IndexError)"

definition getitem_step :: "Tensor \<Rightarrow> getitem_state \<Rightarrow> key_entry \<Rightarrow> error + getitem_state" where
  "getitem_step t st k =
     bind_e (mode_of k) (\<lambda>this_mode.
     bind_e
       (case this_mode of
          ModeNone \<Rightarrow>
            bind_e (py_get (cores t) (counter st)) (\<lambda>c. bind_e (shp c 0) (\<lambda>r.
            insert_core st (Some (\<lparr>sizes = [r, 1, r], elems = elems (eye r)\<rparr>, full_slice, None, None))))
        | ModeSlice \<Rightarrow>
            bind_e (py_get (cores t) (counter st)) (\<lambda>c. bind_e (py_get (Us t) (counter st)) (\<lambda>U.
            bind_e (insert_core st (Some (c, k, U, Some (counter st)))) (\<lambda>st'.
            Inr (st'\<lparr>counter := counter st' + 1\<rparr>))))
        | ModeIndex \<Rightarrow>
            if index_done st then Inl IndexError
            else bind_e
                   (case factor_index st of
                      None \<Rightarrow> get_key t (counter st) k
                    | Some a1 \<Rightarrow>
                        bind_e (shp a1 1) (\<lambda>p.
                        if p \<noteq> (case k of KIndex ks \<Rightarrow> length ks | _ \<Rightarrow> 0) then Inl ValueError
                        else bind_e (get_key t (counter st) k) (\<lambda>a2. fuse_index a1 a2)))
                   (\<lambda>fi. Inr (st\<lparr>factor_index := Some fi, counter := counter st + 1\<rparr>))
        | ModeInt \<Rightarrow>
            bind_e (if last_mode st = Some ModeIndex then insert_core st None else Inr st) (\<lambda>st'.
            bind_e (case factor_int st' of
                      None \<Rightarrow> get_key t (counter st') k
                    | Some fint \<Rightarrow> bind_e (get_key t (counter st') k) (\<lambda>g. einsum_ij_jk fint g))
                   (\<lambda>fint'. Inr (st'\<lparr>factor_int := Some fint', counter := counter st' + 1\<rparr>))))
       (\<lambda>st'. Inr (st'\<lparr>last_mode := Some this_mode\<rparr>)))"

fun getitem_loop :: "Tensor \<Rightarrow> getitem_state \<Rightarrow> key_entry list \<Rightarrow> error + getitem_state" where
  "getitem_loop t st [] = Inr st"
| "getitem_loop t st (k # ks) = bind_e (getitem_step t st k) (\<lambda>st'. getitem_loop t st' ks)"

text \<open>The result of an item access: a number when every mode is taken by an integer,
  a network otherwise.\<close>

datatype item = Number real | Network Tensor

definition getitem_finish :: "getitem_state \<Rightarrow> error + item" where
  "getitem_finish st =
     (if last_mode st = Some ModeIndex
      then (case factor_index st of
              None \<Rightarrow> Inl AttributeError
            | Some fi \<Rightarrow> bind_e (Tensor_of_cores (res_cores st @ [fi]) (Some (res_Us st @ [None])) None)
                           (\<lambda>r. Inr (Network r)))
      else if last_mode st = Some ModeInt
      then (case factor_int st of
              None \<Rightarrow> Inl TypeError
            | Some fint \<Rightarrow>
                if length (res_cores st) > 0
                then bind_e (einsum_ija_ak (last (res_cores st)) fint) (\<lambda>c.
                     bind_e (Tensor_of_cores (butlast (res_cores st) @ [c]) (Some (res_Us st)) None)
                       (\<lambda>r. Inr (Network r)))
                else if dim fint = 2 \<and> 0 < sizes fint ! 0 \<and> 0 < sizes fint ! 1
                     then Inr (Number (at2 fint 0 0)) else Inl IndexError)
      else bind_e (Tensor_of_cores (res_cores st) (Some (res_Us st)) None) (\<lambda>r. Inr (Network r)))"

definition getitem_start :: getitem_state where
  "getitem_start =
     \<lparr>last_mode = None, index_done = False, factor_int = None, factor_index = None,
      res_cores = [], res_Us = [], counter = 0, core_src = [], U_src = []\<rparr>"

definition getitem_entries :: "Tensor \<Rightarrow> key_entry list \<Rightarrow> error + item" where
  "getitem_entries t key =
     bind_e (process_key t key) (\<lambda>key'.
     bind_e (getitem_loop t getitem_start key') getitem_finish)"

text \<open>
  The origins of the cores and factors of the network that lines 412 to 420 return: line
  413 appends an allocated core, line 417 replaces the last core by a new array.
\<close>

definition finish_src :: "getitem_state \<Rightarrow> origin list \<times> origin list" where
  "finish_src st =
     (if last_mode st = Some ModeIndex
      then (core_src st @ [Allocated], U_src st @ [Allocated])
      else if last_mode st = Some ModeInt \<and> length (res_cores st) > 0
      then (butlast (core_src st) @ [Allocated], U_src st)
      else (core_src st, U_src st))"

definition getitem_src :: "Tensor \<Rightarrow> key_entry list \<Rightarrow> error + origin list \<times> origin list" where
  "getitem_src t key =
     bind_e (process_key t key) (\<lambda>key'.
     bind_e (getitem_loop t getitem_start key') (\<lambda>st. Inr (finish_src st)))"

section \<open>Selection by a mask network\<close>

text \<open>
  \<^verbatim>\<open>accepted_inputs\<close> of \<^verbatim>\<open>automata.py\<close>. Vectors are lists of numbers, the matrix
  \<^verbatim>\<open>Xs\<close> of strings is a list of rows. \<^verbatim>\<open>tn.sum\<close> is defined in a file that is not among
  the sources and is a parameter here.
\<close>

definition round_half_even :: "real \<Rightarrow> int" where
  "round_half_even x =
     (let f = \<lfloor>x\<rfloor> in
      if x - of_int f < 1 / 2 then f
      else if x - of_int f > 1 / 2 then f + 1
      else if even f then f else f + 1)"

definition sum_dim1 :: "arr \<Rightarrow> error + arr" where
  "sum_dim1 x =
     (if dim x = 3
      then Inr (tabulate2 (sizes x ! 0) (sizes x ! 2) (\<lambda>i k. \<Sum>j\<leftarrow>[0..<sizes x ! 1]. at3 x i j k))
      else Inl RuntimeError)"

definition matvec :: "arr \<Rightarrow> real list \<Rightarrow> error + real list" where
  "matvec m v =
     (if dim m = 2 \<and> sizes m ! 1 = length v
      then Inr (map (\<lambda>i. \<Sum>j\<leftarrow>[0..<length v]. at2 m i j * v ! j) [0..<sizes m ! 0])
      else Inl RuntimeError)"

definition vecmat :: "real list \<Rightarrow> arr \<Rightarrow> error + real list" where
  "vecmat v m =
     (if dim m = 2 \<and> sizes m ! 0 = length v
      then Inr (map (\<lambda>j. \<Sum>i\<leftarrow>[0..<length v]. v ! i * at2 m i j) [0..<sizes m ! 1])
      else Inl RuntimeError)"

definition einsum_ijk_k :: "arr \<Rightarrow> real list \<Rightarrow> error + arr" where
  "einsum_ijk_k x v =
     (if dim x = 3 \<and> sizes x ! 2 = length v
      then Inr (tabulate2 (sizes x ! 0) (sizes x ! 1) (\<lambda>i j. \<Sum>k\<leftarrow>[0..<length v]. at3 x i j k * v ! k))
      else if dim x = 3 \<and> fits (sizes x ! 2) (length v)
      then Inr (tabulate2 (sizes x ! 0) (sizes x ! 1)
                 (\<lambda>i j. \<Sum>k\<leftarrow>[0..<joint (sizes x ! 2) (length v)].
                          at3 x i j (bpos (sizes x ! 2) k) * v ! bpos (length v) k))
      else Inl RuntimeError)"

fun cumsum :: "int \<Rightarrow> int list \<Rightarrow> int list" where
  "cumsum acc [] = []"
| "cumsum acc (x # xs) = (acc + x) # cumsum (acc + x) xs"

text \<open>\<^verbatim>\<open>Xs[a:b, mu] = i\<close>: the bounds of the slice are clamped to the rows there are.\<close>

definition set_column :: "int list list \<Rightarrow> int \<Rightarrow> int \<Rightarrow> nat \<Rightarrow> int \<Rightarrow> int list list" where
  "set_column Xs a b mu i =
     map (\<lambda>r. if clamp_bound (length Xs) a \<le> r \<and> r < clamp_bound (length Xs) b
               then (Xs ! r)[mu := i] else Xs ! r) [0..<length Xs]"

text \<open>
  The rightmost chains \<^verbatim>\<open>rights\<close>, from the last core to the first, and the recursion
  over the modes: \<open>recursion\<close> is called with the cores from \<^verbatim>\<open>mu\<close> on and the chains
  after \<^verbatim>\<open>mu\<close>; \<open>recursion_points\<close> is its loop over the symbols of mode \<^verbatim>\<open>mu\<close>.
\<close>

fun rights_from :: "arr list \<Rightarrow> error + real list list" where
  "rights_from [] = Inr [[1]]"
| "rights_from (c # cs) =
     bind_e (rights_from cs) (\<lambda>rs.
     bind_e (sum_dim1 c) (\<lambda>m. bind_e (matvec m (hd rs)) (\<lambda>r. Inr (r # rs))))"

fun recursion :: "arr list \<Rightarrow> real list list \<Rightarrow> int list list \<Rightarrow> real list \<Rightarrow> int \<Rightarrow> nat
    \<Rightarrow> error + int list list"
  and recursion_points :: "arr \<Rightarrow> arr list \<Rightarrow> real list list \<Rightarrow> int list list \<Rightarrow> real list \<Rightarrow> int
    \<Rightarrow> nat \<Rightarrow> int list \<Rightarrow> nat list \<Rightarrow> error + int list list" where
  "recursion [] rights Xs left bound mu = Inr Xs"
| "recursion (c # cs) rights Xs left bound mu =
     (case rights of
        [] \<Rightarrow> Inl IndexError
      | r # rs \<Rightarrow>
          bind_e (einsum_ijk_k c r) (\<lambda>fiber.
          bind_e (vecmat left fiber) (\<lambda>pp.
          let per_point = map round_half_even pp;
              cs' = 0 # cumsum 0 per_point
          in recursion_points c cs rs Xs left bound mu cs' [0..<length per_point])))"
| "recursion_points c cs rs Xs left bound mu cum [] = Inr Xs"
| "recursion_points c cs rs Xs left bound mu cum (i # is) =
     (if cum ! i = cum ! (i + 1) then recursion_points c cs rs Xs left bound mu cum is
      else let Xs' = set_column Xs (bound + cum ! i) (bound + cum ! (i + 1)) mu (int i) in
           bind_e (select_mid c (KInt (int i))) (\<lambda>m.
           bind_e (vecmat left m) (\<lambda>left'.
           bind_e (recursion cs rs Xs' left' (bound + cum ! i) (mu + 1)) (\<lambda>Xs''.
           recursion_points c cs rs Xs'' left bound mu cum is))))"

definition accepted_inputs :: "(Tensor \<Rightarrow> error + real) \<Rightarrow> Tensor \<Rightarrow> error + int list list" where
  "accepted_inputs tn_sum t =
     bind_e (tn_sum t) (\<lambda>s.
     if round_half_even s < 0 then Inl RuntimeError
     else bind_e (rights_from (cores t)) (\<lambda>rights.
          recursion (cores t) (tl rights)
            (replicate (nat (round_half_even s)) (replicate (ndim t) 0)) [1] 0 0))"

text \<open>
  The mask branch of \<^verbatim>\<open>__getitem__\<close> (lines 310 to 324). The labels of the receiver are
  64-bit integers, so \<^verbatim>\<open>.long()\<close> returns the label array itself and line 317 clips the
  labels of the receiver in place: the loop returns the selectors and the receiver.
\<close>

fun mask_slicing :: "Tensor \<Rightarrow> int list \<Rightarrow> nat list \<Rightarrow> error + key_entry list \<times> Tensor" where
  "mask_slicing t s [] = Inr ([], t)"
| "mask_slicing t s (n # ns) =
     bind_e (py_get (idxs t) n) (\<lambda>labels.
     let idx = map (\<lambda>l. if l > 1 then 1 else l) labels;
         t' = t\<lparr>idxs := (idxs t)[n := idx]\<rparr> in
     bind_e (py_get s n) (\<lambda>sn.
     let pos = filter (\<lambda>p. int (idx ! p) = sn) [0..<length idx] in
     if pos = [] then Inl IndexError
     else let sl = (if length pos = 1 then KInt (int (hd pos))
                    else KSlice (Some (int (hd pos))) (Some (int (last pos) + 1)) None) in
          bind_e (mask_slicing t' s ns) (\<lambda>(sls, t''). Inr (sl # sls, t''))))"

text \<open>\<^verbatim>\<open>__getitem__\<close> on each kind of key: a mask network, a two-dimensional index array
  given by its column count and rows, a single entry, or a sequence of entries. It returns
  the item and the receiver.\<close>

datatype key = KeyMask Tensor | KeyArray2 nat "int list list" | KeySingle key_entry | KeySeq "key_entry list"

definition getitem :: "(Tensor \<Rightarrow> error + real) \<Rightarrow> Tensor \<Rightarrow> key \<Rightarrow> error + item \<times> Tensor" where
  "getitem tn_sum t key =
     (case key of
        KeyMask m \<Rightarrow>
          bind_e (tn_sum m) (\<lambda>total.
          if \<bar>total - 1\<bar> > 1 / 10 ^ 8 then Inl ValueError
          else bind_e (accepted_inputs tn_sum m) (\<lambda>Xs. bind_e (py_get Xs 0) (\<lambda>s.
               bind_e (mask_slicing t s [0..<ndim t]) (\<lambda>(slicing, t').
               bind_e (getitem_entries t' slicing) (\<lambda>r. Inr (r, t'))))))
      | KeyArray2 ncols rows \<Rightarrow>
          bind_e (getitem_entries t (map (\<lambda>c. KIndex (map (\<lambda>r. r ! c) rows)) [0..<ncols]))
            (\<lambda>r. Inr (r, t))
      | KeySingle k \<Rightarrow> bind_e (getitem_entries t [k]) (\<lambda>r. Inr (r, t))
      | KeySeq ks \<Rightarrow> bind_e (getitem_entries t ks) (\<lambda>r. Inr (r, t)))"

text \<open>
  Modelled from the spec: \<^verbatim>\<open>tn.sum\<close>, which is not among the sources. The specification
  (4.5) speaks of the sum of a mask network: the total of the entries of the array that the
  network stands for.
\<close>

definition tn_sum :: "Tensor \<Rightarrow> error + real" where
  "tn_sum t = bind_e (full t) (\<lambda>a. Inr (sum_list (elems a)))"

section \<open>Scalar metrics\<close>

text \<open>
  \<^verbatim>\<open>dot\<close> and \<^verbatim>\<open>relative_error\<close> of \<^verbatim>\<open>metrics.py\<close>, on two networks. The product
  \<^verbatim>\<open>Lprod\<close> of two networks has one entry, which \<^verbatim>\<open>squeeze\<close> returns; a product with more
  entries is refused here. A quotient of floating-point numbers whose divisor is zero is
  infinite or not a number: \<open>None\<close>.
\<close>

definition einsum_ijk_ja :: "arr \<Rightarrow> arr \<Rightarrow> error + arr" where
  "einsum_ijk_ja x u =
     (if dim x = 3 \<and> dim u = 2 \<and> sizes x ! 1 = sizes u ! 0
      then Inr (tabulate3 (sizes x ! 0) (sizes u ! 1) (sizes x ! 2)
                 (\<lambda>i a k. \<Sum>j\<leftarrow>[0..<sizes x ! 1]. at3 x i j k * at2 u j a))
      else if dim x = 3 \<and> dim u = 2 \<and> fits (sizes x ! 1) (sizes u ! 0)
      then Inr (tabulate3 (sizes x ! 0) (sizes u ! 1) (sizes x ! 2)
                 (\<lambda>i a k. \<Sum>j\<leftarrow>[0..<joint (sizes x ! 1) (sizes u ! 0)].
                            at3 x i (bpos (sizes x ! 1) j) k * at2 u (bpos (sizes u ! 0) j) a))
      else Inl RuntimeError)"

definition einsum_ijk_ar_aj :: "arr \<Rightarrow> arr \<Rightarrow> arr \<Rightarrow> error + arr" where
  "einsum_ijk_ar_aj x u1 u2 =
     (if dim x = 3 \<and> dim u1 = 2 \<and> dim u2 = 2 \<and> sizes x ! 1 = sizes u2 ! 1
         \<and> sizes u1 ! 0 = sizes u2 ! 0
      then Inr (tabulate3 (sizes x ! 0) (sizes u1 ! 1) (sizes x ! 2)
                 (\<lambda>i r k. \<Sum>j\<leftarrow>[0..<sizes x ! 1]. \<Sum>a\<leftarrow>[0..<sizes u1 ! 0].
                              at3 x i j k * at2 u1 a r * at2 u2 a j))
      else if dim x = 3 \<and> dim u1 = 2 \<and> dim u2 = 2 \<and> fits (sizes x ! 1) (sizes u2 ! 1)
              \<and> fits (sizes u1 ! 0) (sizes u2 ! 0)
      then Inr (tabulate3 (sizes x ! 0) (sizes u1 ! 1) (sizes x ! 2)
                 (\<lambda>i r k. \<Sum>j\<leftarrow>[0..<joint (sizes x ! 1) (sizes u2 ! 1)].
                            \<Sum>a\<leftarrow>[0..<joint (sizes u1 ! 0) (sizes u2 ! 0)].
                              at3 x i (bpos (sizes x ! 1) j) k * at2 u1 (bpos (sizes u1 ! 0) a) r
                              * at2 u2 (bpos (sizes u2 ! 0) a) (bpos (sizes u2 ! 1) j)))
      else Inl RuntimeError)"

definition transpose2 :: "arr \<Rightarrow> error + arr" where
  "transpose2 x =
     (if dim x = 2 then Inr (tabulate2 (sizes x ! 1) (sizes x ! 0) (\<lambda>i j. at2 x j i))
      else Inl RuntimeError)"

text \<open>\<^verbatim>\<open>torch.mm\<close> and \<^verbatim>\<open>torch.matmul\<close> on two matrices: the inner lengths must be equal.\<close>

definition mm :: "arr \<Rightarrow> arr \<Rightarrow> error + arr" where
  "mm x y =
     (if dim x = 2 \<and> dim y = 2 \<and> sizes x ! 1 = sizes y ! 0
      then Inr (tabulate2 (sizes x ! 0) (sizes y ! 1)
                 (\<lambda>i k. \<Sum>j\<leftarrow>[0..<sizes x ! 1]. at2 x i j * at2 y j k))
      else Inl RuntimeError)"

definition process :: "Tensor \<Rightarrow> Tensor \<Rightarrow> error + unit" where
  "process gt approx =
     bind_e (shape gt) (\<lambda>s1. bind_e (shape approx) (\<lambda>s2.
     if s1 = s2 then Inr () else Inl AssertionError))"

definition dot_step :: "Tensor \<Rightarrow> Tensor \<Rightarrow> arr \<Rightarrow> nat \<Rightarrow> error + arr" where
  "dot_step t1 t2 Lprod mu =
     bind_e (py_get (cores t1) mu) (\<lambda>c1. bind_e (py_get (Us t1) mu) (\<lambda>U1.
     bind_e (case U1 of
               None \<Rightarrow> bind_e (py_get (cores t2) mu) (\<lambda>c2. bind_e (py_get (Us t2) mu) (\<lambda>U2.
                         case U2 of
                           None \<Rightarrow> Inr (c1, c2)
                         | Some u2 \<Rightarrow> bind_e (einsum_ijk_ja c1 u2) (\<lambda>c1'. Inr (c1', c2))))
             | Some u1 \<Rightarrow> bind_e (py_get (Us t2) mu) (\<lambda>U2. bind_e (py_get (cores t2) mu) (\<lambda>c2.
                         case U2 of
                           None \<Rightarrow> bind_e (einsum_ijk_ja c2 u1) (\<lambda>c2'. Inr (c1, c2'))
                         | Some u2 \<Rightarrow> bind_e (einsum_ijk_ar_aj c2 u1 u2) (\<lambda>c2'. Inr (c1, c2')))))
       (\<lambda>(core1, core2).
     bind_e (einsum_ija_ak core1 Lprod) (\<lambda>Ucore.
     bind_e (shp Ucore 0) (\<lambda>a. bind_e (reshape Ucore [Some a, None]) (\<lambda>Um.
     bind_e (shp core2 0) (\<lambda>b. bind_e (reshape core2 [Some b, None]) (\<lambda>Vm.
     bind_e (transpose2 Vm) (\<lambda>Vt. mm Um Vt)))))))))"

fun dot_loop :: "Tensor \<Rightarrow> Tensor \<Rightarrow> arr \<Rightarrow> nat list \<Rightarrow> error + arr" where
  "dot_loop t1 t2 Lprod [] = Inr Lprod"
| "dot_loop t1 t2 Lprod (mu # mus) = bind_e (dot_step t1 t2 Lprod mu) (\<lambda>L. dot_loop t1 t2 L mus)"

definition dot :: "Tensor \<Rightarrow> Tensor \<Rightarrow> error + real" where
  "dot t1 t2 =
     bind_e (process t1 t2) (\<lambda>_.
     bind_e (dot_loop t1 t2 (ones [1, 1]) (rev [ndim t1 - min (ndim t1) (ndim t2)..<ndim t1])) (\<lambda>L.
     if length (elems L) = 1 then Inr (elems L ! 0) else Inl RuntimeError))"

definition relative_error :: "Tensor \<Rightarrow> Tensor \<Rightarrow> error + real option" where
  "relative_error gt approx =
     bind_e (process gt approx) (\<lambda>_.
     bind_e (dot gt gt) (\<lambda>dotgt.
     bind_e (dot approx approx) (\<lambda>da.
     bind_e (dot gt approx) (\<lambda>dga.
     Inr (if sqrt (max 0 dotgt) = 0 then None
          else Some (sqrt (max 0 (dotgt + da - 2 * dga)) / sqrt (max 0 dotgt)))))))"

section \<open>Orthogonalization and rounding\<close>

text \<open>
  The methods that work in place. One position of the list \<^verbatim>\<open>self.cores\<close> holds an array
  or, after the assignment of line 601, the list \<^verbatim>\<open>self.cores\<close> itself; reading an
  attribute of an array (\<^verbatim>\<open>dim\<close>, \<^verbatim>\<open>shape\<close>, \<^verbatim>\<open>clone\<close>) from a list raises
  \<^verbatim>\<open>AttributeError\<close>.
\<close>

datatype slot = Array arr | CoresList

record obj =
  obj_cores :: "slot list"
  obj_Us :: "arr option list"
  obj_idxs :: "nat list list"

definition the_array :: "slot \<Rightarrow> error + arr" where
  "the_array s = (case s of Array a \<Rightarrow> Inr a | CoresList \<Rightarrow> Inl AttributeError)"

definition obj_of :: "Tensor \<Rightarrow> obj" where
  "obj_of t = \<lparr>obj_cores = map Array (cores t), obj_Us = Us t, obj_idxs = idxs t\<rparr>"

definition freeze :: "obj \<Rightarrow> error + Tensor" where
  "freeze ob =
     bind_e (map_e the_array (obj_cores ob)) (\<lambda>cs.
     Inr \<lparr>cores = cs, Us = obj_Us ob, idxs = obj_idxs ob\<rparr>)"

text \<open>
  What the methods call and the sources do not define: \<^verbatim>\<open>torch.qr\<close>, and
  \<^verbatim>\<open>tn.left_unfolding\<close>, \<^verbatim>\<open>tn.right_unfolding\<close> and \<^verbatim>\<open>tn.truncated_svd\<close> of the
  repository. They are parameters. The unfoldings are called with whatever the position of
  the list holds.
\<close>

record svd_args =
  arg_delta :: "real option"
  arg_eps :: "real option"
  arg_rmax :: "nat option"
  arg_left_ortho :: bool
  arg_algorithm :: string
  arg_verbose :: bool

record prims =
  qr :: "arr \<Rightarrow> error + arr \<times> arr"
  left_unfolding :: "slot \<Rightarrow> error + arr"
  right_unfolding :: "slot \<Rightarrow> error + arr"
  truncated_svd :: "arr \<Rightarrow> svd_args \<Rightarrow> error + arr \<times> arr"

definition set_core :: "obj \<Rightarrow> nat \<Rightarrow> slot \<Rightarrow> obj" where
  "set_core ob n s = ob\<lparr>obj_cores := (obj_cores ob)[n := s]\<rparr>"

definition set_U :: "obj \<Rightarrow> nat \<Rightarrow> arr option \<Rightarrow> obj" where
  "set_U ob n u = ob\<lparr>obj_Us := (obj_Us ob)[n := u]\<rparr>"

text \<open>\<^verbatim>\<open>factor_orthogonalize\<close> (lines 562 to 577).\<close>

definition factor_orthogonalize :: "prims \<Rightarrow> obj \<Rightarrow> nat \<Rightarrow> error + obj" where
  "factor_orthogonalize P ob mu =
     bind_e (py_get (obj_Us ob) mu) (\<lambda>U.
     case U of
       None \<Rightarrow> Inr ob
     | Some u \<Rightarrow>
         bind_e (qr P u) (\<lambda>(Q, R).
         let ob1 = set_U ob mu (Some Q) in
         bind_e (py_get (obj_cores ob1) mu) (\<lambda>s. bind_e (the_array s) (\<lambda>c.
         bind_e (if dim c = 2 then einsum_jk_aj c R else einsum_ijk_aj c R) (\<lambda>c'.
         Inr (set_core ob1 mu (Array c')))))))"

text \<open>
  \<^verbatim>\<open>left_orthogonalize\<close> (lines 587 to 607). It returns the receiver and the factor
  \<^verbatim>\<open>R\<close>. Line 601 stores the list of cores at position \<^verbatim>\<open>mu\<close> when the core there has two
  axes.
\<close>

definition left_orthogonalize :: "prims \<Rightarrow> obj \<Rightarrow> int \<Rightarrow> error + obj \<times> arr" where
  "left_orthogonalize P ob0 mu =
     (if \<not> (0 \<le> mu \<and> mu < int (length (obj_cores ob0)) - 1) then Inl AssertionError
      else let n = nat mu in
        bind_e (py_get (obj_cores ob0) n) (\<lambda>s0. bind_e (the_array s0) (\<lambda>c0.
        let ob1 = (if dim c0 = 2 then set_core ob0 n CoresList else ob0) in
        bind_e (factor_orthogonalize P ob1 n) (\<lambda>ob2.
        bind_e (py_get (obj_cores ob2) n) (\<lambda>s.
        bind_e (left_unfolding P s) (\<lambda>m.
        bind_e (qr P m) (\<lambda>(Q, R).
        bind_e (the_array s) (\<lambda>c.
        bind_e (shp Q 1) (\<lambda>q1.
        bind_e (reshape Q (map Some (butlast (sizes c) @ [q1]))) (\<lambda>c'.
        let ob3 = set_core ob2 n (Array c') in
        bind_e (py_get (obj_cores ob3) (n + 1)) (\<lambda>s1.
        bind_e (right_unfolding P s1) (\<lambda>rightcoreR.
        bind_e (mm R rightcoreR) (\<lambda>m1.
        bind_e (shp R 0) (\<lambda>r0.
        bind_e (the_array s1) (\<lambda>c1.
        bind_e (reshape m1 (map Some (r0 # tl (sizes c1)))) (\<lambda>c1'.
        Inr (set_core ob3 (n + 1) (Array c1'), R)))))))))))))))))"

text \<open>\<^verbatim>\<open>right_orthogonalize\<close> (lines 609 to 629).\<close>

definition right_orthogonalize :: "prims \<Rightarrow> obj \<Rightarrow> int \<Rightarrow> error + obj \<times> arr" where
  "right_orthogonalize P ob0 mu =
     (if \<not> (1 \<le> mu \<and> mu < int (length (obj_cores ob0))) then Inl AssertionError
      else let n = nat mu in
        bind_e (factor_orthogonalize P ob0 n) (\<lambda>ob1.
        bind_e (py_get (obj_cores ob1) n) (\<lambda>s.
        bind_e (right_unfolding P s) (\<lambda>m.
        bind_e (transpose2 m) (\<lambda>mt.
        bind_e (qr P mt) (\<lambda>(Q0, L0).
        bind_e (transpose2 L0) (\<lambda>L.
        bind_e (transpose2 Q0) (\<lambda>Q.
        bind_e (shp Q 0) (\<lambda>q0.
        bind_e (the_array s) (\<lambda>c.
        bind_e (reshape Q (map Some (q0 # tl (sizes c)))) (\<lambda>c'.
        let ob2 = set_core ob1 n (Array c') in
        bind_e (py_get (obj_cores ob2) (n - 1)) (\<lambda>s1.
        bind_e (left_unfolding P s1) (\<lambda>leftcoreL.
        bind_e (mm leftcoreL L) (\<lambda>m1.
        bind_e (the_array s1) (\<lambda>c1.
        bind_e (shp L 1) (\<lambda>l1.
        bind_e (reshape m1 (map Some (butlast (sizes c1) @ [l1]))) (\<lambda>c1'.
        Inr (set_core ob2 (n - 1) (Array c1'), L))))))))))))))))))"

text \<open>\<^verbatim>\<open>orthogonalize\<close> (lines 631 to 648): the two sweeps, and the pair \<^verbatim>\<open>R, L\<close>.\<close>

fun left_sweep :: "prims \<Rightarrow> obj \<Rightarrow> arr \<Rightarrow> int list \<Rightarrow> error + obj \<times> arr" where
  "left_sweep P ob R [] = Inr (ob, R)"
| "left_sweep P ob R (i # is) =
     bind_e (left_orthogonalize P ob i) (\<lambda>(ob', R'). left_sweep P ob' R' is)"

fun right_sweep :: "prims \<Rightarrow> obj \<Rightarrow> arr \<Rightarrow> int list \<Rightarrow> error + obj \<times> arr" where
  "right_sweep P ob L [] = Inr (ob, L)"
| "right_sweep P ob L (i # is) =
     bind_e (right_orthogonalize P ob i) (\<lambda>(ob', L'). right_sweep P ob' L' is)"

definition orthogonalize :: "prims \<Rightarrow> obj \<Rightarrow> int \<Rightarrow> error + obj \<times> arr \<times> arr" where
  "orthogonalize P ob mu =
     bind_e (left_sweep P ob (ones [1, 1]) [0..mu - 1]) (\<lambda>(ob1, R).
     bind_e (right_sweep P ob1 (ones [1, 1]) (rev [mu + 1..int (length (obj_cores ob1)) - 1])) (\<lambda>(ob2, L).
     Inr (ob2, R, L)))"

text \<open>
  \<^verbatim>\<open>_cp_to_tt\<close> (lines 579 to 585) has a docstring and no statement: a call changes
  nothing.
\<close>

definition cp_to_tt :: "obj \<Rightarrow> int \<Rightarrow> obj" where
  "cp_to_tt ob n = ob"

text \<open>
  The keyword arguments of the rounding methods, \<open>None\<close> where the caller gives none:
  \<^verbatim>\<open>rmax\<close> (one bound or a list), \<^verbatim>\<open>algorithm\<close> and \<^verbatim>\<open>verbose\<close>, which only
  \<^verbatim>\<open>round_tt\<close> accepts.
\<close>

datatype rmax_arg = RmaxOne "nat option" | RmaxList "nat option list"

record kwargs =
  kw_rmax :: "rmax_arg option"
  kw_algorithm :: "string option"
  kw_verbose :: "bool option"

definition rmax_list :: "kwargs \<Rightarrow> nat \<Rightarrow> nat option list" where
  "rmax_list kw n =
     (case kw_rmax kw of
        None \<Rightarrow> replicate n None
      | Some (RmaxOne r) \<Rightarrow> replicate n r
      | Some (RmaxList rs) \<Rightarrow> rs)"

definition algorithm_of :: "kwargs \<Rightarrow> string" where
  "algorithm_of kw = (case kw_algorithm kw of None \<Rightarrow> ''svd'' | Some a \<Rightarrow> a)"

definition frobenius :: "arr \<Rightarrow> real" where
  "frobenius x = sqrt (\<Sum>v\<leftarrow>elems x. v * v)"

definition permute_021 :: "arr \<Rightarrow> error + arr" where
  "permute_021 x =
     (if dim x = 3
      then Inr (tabulate3 (sizes x ! 0) (sizes x ! 2) (sizes x ! 1) (\<lambda>i k j. at3 x i j k))
      else Inl RuntimeError)"

text \<open>\<^verbatim>\<open>round_tt\<close> (lines 687 to 715): the body of the loop, the loop, the method.\<close>

definition round_tt_step :: "prims \<Rightarrow> kwargs \<Rightarrow> real \<Rightarrow> nat option list \<Rightarrow> obj \<Rightarrow> nat \<Rightarrow> error + obj" where
  "round_tt_step P kw delta rmax ob mu =
     bind_e (py_get (obj_cores ob) mu) (\<lambda>s.
     bind_e (right_unfolding P s) (\<lambda>M.
     bind_e (py_get rmax (mu - 1)) (\<lambda>r.
     bind_e (truncated_svd P M
               \<lparr>arg_delta = Some delta, arg_eps = None, arg_rmax = r, arg_left_ortho = False,
                arg_algorithm = algorithm_of kw,
                arg_verbose = (case kw_verbose kw of None \<Rightarrow> False | Some v \<Rightarrow> v)\<rparr>) (\<lambda>(left, M').
     bind_e (the_array s) (\<lambda>c. bind_e (shp c 1) (\<lambda>b. bind_e (shp c 2) (\<lambda>r2.
     bind_e (reshape M' [None, Some b, Some r2]) (\<lambda>c'.
     let ob1 = set_core ob mu (Array c') in
     bind_e (py_get (obj_cores ob1) (mu - 1)) (\<lambda>s1. bind_e (the_array s1) (\<lambda>c1.
     bind_e (einsum_ija_ak c1 left) (\<lambda>c1'.
     Inr (set_core ob1 (mu - 1) (Array c1')))))))))))))"

fun round_tt_loop :: "prims \<Rightarrow> kwargs \<Rightarrow> real \<Rightarrow> nat option list \<Rightarrow> obj \<Rightarrow> nat list \<Rightarrow> error + obj" where
  "round_tt_loop P kw delta rmax ob [] = Inr ob"
| "round_tt_loop P kw delta rmax ob (mu # mus) =
     bind_e (round_tt_step P kw delta rmax ob mu) (\<lambda>ob'. round_tt_loop P kw delta rmax ob' mus)"

definition round_tt :: "prims \<Rightarrow> obj \<Rightarrow> real \<Rightarrow> kwargs \<Rightarrow> error + obj" where
  "round_tt P ob eps kw =
     (let N = length (obj_cores ob); rmax = rmax_list kw (N - 1) in
      if int (length rmax) \<noteq> int N - 1 then Inl AssertionError
      else bind_e (orthogonalize P ob (int N - 1)) (\<lambda>(ob1, R, L).
           let ob2 = cp_to_tt ob1 (int N - 1) in
           bind_e (the_array (last (obj_cores ob2))) (\<lambda>cl.
           let delta = eps / max 1 (sqrt (real (N - 1))) * frobenius cl in
           round_tt_loop P kw delta rmax ob2 (rev [1..<N]))))"

text \<open>\<^verbatim>\<open>round_tucker\<close> (lines 650 to 685).\<close>

definition round_tucker_step :: "prims \<Rightarrow> kwargs \<Rightarrow> real \<Rightarrow> nat option list \<Rightarrow> obj \<Rightarrow> nat \<Rightarrow> error + obj" where
  "round_tucker_step P kw eps rmax ob0 mu =
     (let N = length (obj_cores ob0) in
      bind_e (py_get (obj_Us ob0) mu) (\<lambda>U.
      bind_e (case U of
                Some u \<Rightarrow> Inr ob0
              | None \<Rightarrow> bind_e (freeze ob0) (\<lambda>t. bind_e (shape t) (\<lambda>sh. bind_e (py_get sh mu) (\<lambda>sm.
                          Inr (set_U ob0 mu (Some (eye sm))))))) (\<lambda>ob.
      bind_e (py_get (obj_cores ob) mu) (\<lambda>s. bind_e (the_array s) (\<lambda>c.
      bind_e (permute_021 c) (\<lambda>cp. bind_e (shp c 1) (\<lambda>b.
      bind_e (reshape cp [None, Some b]) (\<lambda>m.
      bind_e (qr P m) (\<lambda>(Q, R).
      bind_e (shp c 0) (\<lambda>a. bind_e (shp c 2) (\<lambda>r2.
      bind_e (reshape Q [Some a, Some r2, None]) (\<lambda>q3.
      bind_e (permute_021 q3) (\<lambda>c'.
      let ob1 = set_core ob mu (Array c') in
      bind_e (py_get (obj_Us ob1) mu) (\<lambda>U1.
      bind_e (case U1 of None \<Rightarrow> Inl TypeError | Some u1 \<Rightarrow> Inr u1) (\<lambda>u1.
      bind_e (transpose2 R) (\<lambda>Rt.
      bind_e (mm u1 Rt) (\<lambda>u2.
      let ob2 = set_U ob1 mu (Some u2) in
      bind_e (py_get rmax mu) (\<lambda>r.
      bind_e (truncated_svd P u2
                \<lparr>arg_delta = None, arg_eps = Some (eps / sqrt (real N)), arg_rmax = r,
                 arg_left_ortho = True, arg_algorithm = algorithm_of kw, arg_verbose = False\<rparr>)
             (\<lambda>(left, right).
      let ob3 = set_U ob2 mu (Some left) in
      bind_e (py_get (obj_cores ob3) mu) (\<lambda>s3. bind_e (the_array s3) (\<lambda>c3.
      bind_e (einsum_ijk_aj c3 right) (\<lambda>c4.
      let ob4 = set_core ob3 mu (Array c4) in
      if int mu < int N - 1
      then bind_e (left_orthogonalize P ob4 (int mu)) (\<lambda>(ob5, R'). Inr ob5)
      else Inr ob4))))))))))))))))))))))"

fun round_tucker_loop :: "prims \<Rightarrow> kwargs \<Rightarrow> real \<Rightarrow> nat option list \<Rightarrow> obj \<Rightarrow> nat list \<Rightarrow> error + obj" where
  "round_tucker_loop P kw eps rmax ob [] = Inr ob"
| "round_tucker_loop P kw eps rmax ob (mu # mus) =
     bind_e (round_tucker_step P kw eps rmax ob mu) (\<lambda>ob'. round_tucker_loop P kw eps rmax ob' mus)"

definition round_tucker :: "prims \<Rightarrow> obj \<Rightarrow> real \<Rightarrow> kwargs \<Rightarrow> error + obj" where
  "round_tucker P ob eps kw =
     (if kw_verbose kw \<noteq> None then Inl TypeError
      else let N = length (obj_cores ob); rmax = rmax_list kw N in
        if length rmax \<noteq> N then Inl AssertionError
        else bind_e (orthogonalize P ob 0) (\<lambda>(ob1, R, L).
             round_tucker_loop P kw eps rmax ob1 [0..<N]))"

text \<open>
  \<^verbatim>\<open>round\<close> (lines 717 to 731). The comparison \<^verbatim>\<open>reached < eps\<close> is false when
  \<^verbatim>\<open>reached\<close> is infinite or not a number.
\<close>

definition round_net :: "prims \<Rightarrow> obj \<Rightarrow> real \<Rightarrow> kwargs \<Rightarrow> error + obj" where
  "round_net P ob eps kw =
     bind_e (freeze ob) (\<lambda>t. bind_e (clone t) (\<lambda>copy.
     bind_e (round_tt P ob eps kw) (\<lambda>ob1.
     bind_e (freeze ob1) (\<lambda>t1. bind_e (relative_error copy t1) (\<lambda>reached.
     case reached of
       None \<Rightarrow> Inr ob1
     | Some r \<Rightarrow> if r < eps then round_tucker P ob1 ((1 + eps) / (1 + r) - 1) kw else Inr ob1)))))"

section \<open>Equality of networks\<close>

text \<open>
  \<^verbatim>\<open>__eq__\<close> and \<^verbatim>\<open>__ne__\<close> (lines 162 to 166) on two networks. \<^verbatim>\<open>norm\<close> (lines 556 and
  557) calls \<^verbatim>\<open>tn.norm\<close>, which is not among the sources and is a parameter here.
\<close>

definition eq_net :: "(Tensor \<Rightarrow> error + real) \<Rightarrow> Tensor \<Rightarrow> Tensor \<Rightarrow> error + bool" where
  "eq_net nrm s t = bind_e (sub s t) (\<lambda>d. bind_e (nrm d) (\<lambda>n. Inr (n \<le> 1 / 10 ^ 14)))"

definition ne_net :: "(Tensor \<Rightarrow> error + real) \<Rightarrow> Tensor \<Rightarrow> Tensor \<Rightarrow> error + bool" where
  "ne_net nrm s t = bind_e (eq_net nrm s t) (\<lambda>b. Inr (\<not> b))"

text \<open>
  Modelled from the spec: \<^verbatim>\<open>tn.norm\<close>, which is not among the sources. The specification
  speaks of the Frobenius norm of a network: the square root of the sum of the squares of
  the entries of the array that the network stands for.
\<close>

definition tn_norm :: "Tensor \<Rightarrow> error + real" where
  "tn_norm t = bind_e (full t) (\<lambda>a. Inr (frobenius a))"

section \<open>Storage of the arrays\<close>

text \<open>
  Array objects with the address of their storage, for the questions of who shares what.
  A view has the address of the array it is taken from; every other array that an
  operation produces gets a free address. The list \<^verbatim>\<open>idxs\<close> of a network is an object with
  an address too.
\<close>

record aref =
  storage :: nat
  shown :: arr

record lref =
  label_storage :: nat
  label_lists :: "nat list list"

record net_ref =
  ref_cores :: "aref list"
  ref_Us :: "aref option list"
  ref_idxs :: lref

definition net_of :: "net_ref \<Rightarrow> Tensor" where
  "net_of r = \<lparr>cores = map shown (ref_cores r), Us = map (map_option shown) (ref_Us r),
              idxs = label_lists (ref_idxs r)\<rparr>"

definition array_storages :: "net_ref \<Rightarrow> nat list" where
  "array_storages r =
     map storage (ref_cores r)
     @ concat (map (\<lambda>u. case u of None \<Rightarrow> [] | Some a \<Rightarrow> [storage a]) (ref_Us r))"

text \<open>
  The store: the next free address, and the in-place products \<^verbatim>\<open>x.data *= r\<close> that have
  been done, each with the address of the storage it wrote to. An operation takes the
  store and returns its result and the store after it, or raises.
\<close>

record store =
  next_free :: nat
  writes :: "(nat \<times> real) list"

definition bind_s ::
  "(store \<Rightarrow> error + 'a \<times> store) \<Rightarrow> ('a \<Rightarrow> store \<Rightarrow> error + 'b \<times> store) \<Rightarrow> store \<Rightarrow> error + 'b \<times> store" where
  "bind_s m f st = (case m st of Inl e \<Rightarrow> Inl e | Inr (x, st') \<Rightarrow> f x st')"

definition pure_s :: "'a \<Rightarrow> store \<Rightarrow> error + 'a \<times> store" where
  "pure_s x st = Inr (x, st)"

text \<open>A computation that touches no storage, such as reading a shape or a position of a list.\<close>

definition lift_s :: "error + 'a \<Rightarrow> store \<Rightarrow> error + 'a \<times> store" where
  "lift_s v st = (case v of Inl e \<Rightarrow> Inl e | Inr x \<Rightarrow> Inr (x, st))"

text \<open>
  The array that a call of \<^verbatim>\<open>cat\<close>, \<^verbatim>\<open>sum\<close>, \<^verbatim>\<open>einsum\<close>, \<^verbatim>\<open>zeros\<close>, \<^verbatim>\<open>clone\<close> or \<^verbatim>\<open>+\<close>
  returns: a new object at the next free address.
\<close>

definition new :: "error + arr \<Rightarrow> store \<Rightarrow> error + aref \<times> store" where
  "new v st =
     (case v of
        Inl e \<Rightarrow> Inl e
      | Inr a \<Rightarrow> Inr (\<lparr>storage = next_free st, shown = a\<rparr>, st\<lparr>next_free := next_free st + 1\<rparr>))"

text \<open>\<^verbatim>\<open>torch.reshape\<close> of an array: an object that shows the storage of its argument.\<close>

definition reshaped :: "aref \<Rightarrow> nat option list \<Rightarrow> store \<Rightarrow> error + aref \<times> store" where
  "reshaped x sh = lift_s (bind_e (reshape (shown x) sh) (\<lambda>a. Inr \<lparr>storage = storage x, shown = a\<rparr>))"

text \<open>
  The in-place product \<^verbatim>\<open>x.data *= r\<close> on the storage at the address \<open>a\<close>, as every array
  object that shows this storage sees it, and a list of such products on a network.
\<close>

definition scale_at :: "nat \<Rightarrow> real \<Rightarrow> aref \<Rightarrow> aref" where
  "scale_at a r x = (if storage x = a then x\<lparr>shown := scale r (shown x)\<rparr> else x)"

definition scale_net_at :: "nat \<Rightarrow> real \<Rightarrow> net_ref \<Rightarrow> net_ref" where
  "scale_net_at a r s =
     s\<lparr>ref_cores := map (scale_at a r) (ref_cores s),
       ref_Us := map (map_option (scale_at a r)) (ref_Us s)\<rparr>"

fun after :: "(nat \<times> real) list \<Rightarrow> net_ref \<Rightarrow> net_ref" where
  "after [] s = s"
| "after ((a, r) # ws) s = after ws (scale_net_at a r s)"

text \<open>
  The constructor on a list of cores (lines 21 to 29 and 50 to 62): it keeps the arrays
  it is given, and the list of labels it is given or else a new one.
\<close>

definition Tensor_of_refs ::
  "aref list \<Rightarrow> aref option list option \<Rightarrow> lref option \<Rightarrow> store \<Rightarrow> error + net_ref \<times> store" where
  "Tensor_of_refs cs us ix st =
     (case Tensor_of_cores (map shown cs) (map_option (map (map_option shown)) us)
             (map_option label_lists ix) of
        Inl e \<Rightarrow> Inl e
      | Inr t \<Rightarrow>
          let us' = (case us of Some u \<Rightarrow> u | None \<Rightarrow> replicate (length cs) None) in
          (case ix of
             Some l \<Rightarrow> Inr (\<lparr>ref_cores = cs, ref_Us = us', ref_idxs = l\<rparr>, st)
           | None \<Rightarrow>
               Inr (\<lparr>ref_cores = cs, ref_Us = us',
                     ref_idxs = \<lparr>label_storage = next_free st, label_lists = idxs t\<rparr>\<rparr>,
                    st\<lparr>next_free := next_free st + 1\<rparr>)))"

fun map_s :: "('a \<Rightarrow> store \<Rightarrow> error + 'b \<times> store) \<Rightarrow> 'a list \<Rightarrow> store \<Rightarrow> error + 'b list \<times> store" where
  "map_s f [] = pure_s []"
| "map_s f (x # xs) = bind_s (f x) (\<lambda>y. bind_s (map_s f xs) (\<lambda>ys. pure_s (y # ys)))"

text \<open>\<^verbatim>\<open>full_tucker\<close> (lines 459 to 476): every core of the result is new.\<close>

fun expand_refs :: "aref list \<Rightarrow> aref option list \<Rightarrow> store \<Rightarrow> error + aref list \<times> store" where
  "expand_refs [] us = pure_s []"
| "expand_refs (c # cs) [] = lift_s (Inl IndexError)"
| "expand_refs (c # cs) (u # us) =
     bind_s (case u of
               Some m \<Rightarrow> new (if dim (shown c) = 2 then einsum_jk_aj (shown c) (shown m)
                                else einsum_ijk_aj (shown c) (shown m))
             | None \<Rightarrow> new (Inr (shown c)))
       (\<lambda>c'. bind_s (expand_refs cs us) (\<lambda>cs'. pure_s (c' # cs')))"

definition full_tucker_ref :: "net_ref \<Rightarrow> store \<Rightarrow> error + net_ref \<times> store" where
  "full_tucker_ref s =
     bind_s (expand_refs (ref_cores s) (ref_Us s)) (\<lambda>cs. Tensor_of_refs cs None (Some (ref_idxs s)))"

text \<open>
  \<^verbatim>\<open>__add__\<close> on two networks (lines 69 to 99), operation by operation. A core that has
  no factor enters \<^verbatim>\<open>cat\<close> as the object of the operand.
\<close>

definition add_mode_ref ::
  "nat \<Rightarrow> aref \<Rightarrow> aref option \<Rightarrow> aref \<Rightarrow> aref option \<Rightarrow> store \<Rightarrow> error + (aref \<times> aref option) \<times> store" where
  "add_mode_ref sn core1 U1 core2 U2 =
     (case (U1, U2) of
        (Some u1, Some u2) \<Rightarrow>
          bind_s (lift_s (shp (shown core2) 0)) (\<lambda>a2. bind_s (lift_s (shp (shown core1) 1)) (\<lambda>b1.
          bind_s (lift_s (shp (shown core1) 2)) (\<lambda>c1.
          bind_s (new (Inr (zeros [a2, b1, c1]))) (\<lambda>z1.
          bind_s (new (cat_dim0 (shown core1) (shown z1))) (\<lambda>s1.
          bind_s (lift_s (shp (shown core1) 0)) (\<lambda>a1. bind_s (lift_s (shp (shown core2) 2)) (\<lambda>c2.
          bind_s (new (Inr (zeros [a1 + a2, b1, c2]))) (\<lambda>z2.
          bind_s (new (cat_dim2 (shown s1) (shown z2))) (\<lambda>slice1.
          bind_s (lift_s (shp (shown core2) 1)) (\<lambda>b2.
          bind_s (new (Inr (zeros [a1, b2, c2]))) (\<lambda>z3.
          bind_s (new (cat_dim0 (shown z3) (shown core2))) (\<lambda>s2.
          bind_s (new (Inr (zeros [a1 + a2, b2, c1]))) (\<lambda>z4.
          bind_s (new (cat_dim2 (shown z4) (shown s2))) (\<lambda>slice2.
          bind_s (new (cat_dim1 (shown slice1) (shown slice2))) (\<lambda>c.
          bind_s (new (cat_cols (shown u1) (shown u2))) (\<lambda>u.
          pure_s (c, Some u)))))))))))))))))
      | _ \<Rightarrow>
          bind_s (case U1 of Some u \<Rightarrow> new (einsum_ijk_aj (shown core1) (shown u))
                  | None \<Rightarrow> pure_s core1) (\<lambda>core1.
          bind_s (case U2 of Some u \<Rightarrow> new (einsum_ijk_aj (shown core2) (shown u))
                  | None \<Rightarrow> pure_s core2) (\<lambda>core2.
          bind_s (lift_s (shp (shown core2) 0)) (\<lambda>a2. bind_s (lift_s (shp (shown core1) 2)) (\<lambda>c1.
          bind_s (new (Inr (zeros [a2, sn, c1]))) (\<lambda>z1.
          bind_s (new (cat_dim0 (shown core1) (shown z1))) (\<lambda>column1.
          bind_s (lift_s (shp (shown core1) 0)) (\<lambda>a1. bind_s (lift_s (shp (shown core2) 2)) (\<lambda>c2.
          bind_s (new (Inr (zeros [a1, sn, c2]))) (\<lambda>z2.
          bind_s (new (cat_dim0 (shown z2) (shown core2))) (\<lambda>column2.
          bind_s (new (cat_dim2 (shown column1) (shown column2))) (\<lambda>c.
          pure_s (c, None)))))))))))))"

definition add_mode_at_ref ::
  "net_ref \<Rightarrow> net_ref \<Rightarrow> nat list \<Rightarrow> nat \<Rightarrow> store \<Rightarrow> error + (aref \<times> aref option) \<times> store" where
  "add_mode_at_ref s t sh n =
     bind_s (lift_s (py_get (ref_cores s) n)) (\<lambda>core1. bind_s (lift_s (py_get (ref_cores t) n)) (\<lambda>core2.
     bind_s (lift_s (py_get (ref_Us s) n)) (\<lambda>U1. bind_s (lift_s (py_get (ref_Us t) n)) (\<lambda>U2.
     bind_s (lift_s (py_get sh n)) (\<lambda>sn. add_mode_ref sn core1 U1 core2 U2)))))"

definition add_ref :: "net_ref \<Rightarrow> net_ref \<Rightarrow> store \<Rightarrow> error + net_ref \<times> store" where
  "add_ref s t =
     bind_s (lift_s (shape (net_of s))) (\<lambda>sh. bind_s (lift_s (shape (net_of t))) (\<lambda>sh'.
     if sh \<noteq> sh' then lift_s (Inl ValueError)
     else if length (ref_cores s) = 1
       then bind_s (full_tucker_ref s) (\<lambda>s'. bind_s (lift_s (py_get (ref_cores s') 0)) (\<lambda>c1.
            bind_s (full_tucker_ref t) (\<lambda>t'. bind_s (lift_s (py_get (ref_cores t') 0)) (\<lambda>c2.
            bind_s (new (add_arr (shown c1) (shown c2))) (\<lambda>c. Tensor_of_refs [c] None None)))))
       else bind_s (map_s (add_mode_at_ref s t sh) [0..<length (ref_cores s)]) (\<lambda>cus.
            let cs = map fst cus; us = map snd cus in
            bind_s (lift_s (py_get cs 0)) (\<lambda>c0. bind_s (new (sum_dim0 (shown c0))) (\<lambda>c0'.
            let cs' = cs[0 := c0'] in
            bind_s (new (sum_dim2 (shown (last cs')))) (\<lambda>cl.
            Tensor_of_refs (cs'[length cs' - 1 := cl]) (Some us) None))))))"

text \<open>
  Modelled from the spec: the storage of what \<^verbatim>\<open>tn.core_kron\<close> returns; the function is
  not among the sources. The specification (4.4, 5) has arithmetic allocate new storage
  for its results: the product is a new array.
\<close>

definition core_kron_ref :: "aref \<Rightarrow> aref \<Rightarrow> store \<Rightarrow> error + aref \<times> store" where
  "core_kron_ref x y = new (core_kron (shown x) (shown y))"

text \<open>\<^verbatim>\<open>__mul__\<close> on two networks (lines 120 to 142), operation by operation.\<close>

definition mul_mode_ref ::
  "nat \<Rightarrow> aref \<Rightarrow> aref option \<Rightarrow> aref \<Rightarrow> aref option \<Rightarrow> store \<Rightarrow> error + (aref \<times> aref option) \<times> store" where
  "mul_mode_ref sn core1 U1 core2 U2 =
     bind_s (lift_s (if U1 \<noteq> None \<and> U2 \<noteq> None
                     then bind_e (shp (shown core1) 1) (\<lambda>b1. bind_e (shp (shown core2) 1) (\<lambda>b2.
                          Inr (b1 * b2 < sn)))
                     else Inr False)) (\<lambda>cheap.
     if cheap
     then bind_s (new (einsum_ijk_abc (shown core1) (shown core2))) (\<lambda>e.
          bind_s (reshaped e [Some (sizes (shown core1) ! 0 * sizes (shown core2) ! 0),
                              Some (sizes (shown core1) ! 1 * sizes (shown core2) ! 1),
                              Some (sizes (shown core1) ! 2 * sizes (shown core2) ! 2)]) (\<lambda>c.
          bind_s (new (einsum_ij_ik (shown (the U1)) (shown (the U2)))) (\<lambda>e'.
          bind_s (lift_s (shp (shown (the U1)) 0)) (\<lambda>i.
          bind_s (reshaped e' [Some i, None]) (\<lambda>u. pure_s (c, Some u))))))
     else bind_s (case U1 of Some u \<Rightarrow> new (einsum_ijk_aj (shown core1) (shown u))
                  | None \<Rightarrow> pure_s core1) (\<lambda>core1.
          bind_s (case U2 of Some u \<Rightarrow> new (einsum_ijk_aj (shown core2) (shown u))
                  | None \<Rightarrow> pure_s core2) (\<lambda>core2.
          bind_s (core_kron_ref core1 core2) (\<lambda>c. pure_s (c, None)))))"

definition mul_mode_at_ref ::
  "net_ref \<Rightarrow> net_ref \<Rightarrow> nat list \<Rightarrow> nat \<Rightarrow> store \<Rightarrow> error + (aref \<times> aref option) \<times> store" where
  "mul_mode_at_ref s t sh n =
     bind_s (lift_s (py_get (ref_Us s) n)) (\<lambda>U1. bind_s (lift_s (py_get (ref_Us t) n)) (\<lambda>U2.
     bind_s (lift_s (py_get (ref_cores s) n)) (\<lambda>core1. bind_s (lift_s (py_get (ref_cores t) n)) (\<lambda>core2.
     bind_s (lift_s (py_get sh n)) (\<lambda>sn. mul_mode_ref sn core1 U1 core2 U2)))))"

definition mul_ref :: "net_ref \<Rightarrow> net_ref \<Rightarrow> store \<Rightarrow> error + net_ref \<times> store" where
  "mul_ref s t =
     bind_s (lift_s (shape (net_of s))) (\<lambda>sh. bind_s (lift_s (shape (net_of t))) (\<lambda>sh'.
     if sh \<noteq> sh' then lift_s (Inl ValueError)
     else bind_s (map_s (mul_mode_at_ref s t sh) [0..<length (ref_cores s)]) (\<lambda>cus.
          Tensor_of_refs (map fst cus) (Some (map snd cus)) None)))"

text \<open>
  \<^verbatim>\<open>clone\<close> (lines 510 to 527): a clone of every core and of every factor, and the list
  \<^verbatim>\<open>idxs\<close> of the receiver itself (line 526).
\<close>

definition clone_ref :: "net_ref \<Rightarrow> store \<Rightarrow> error + net_ref \<times> store" where
  "clone_ref s =
     bind_s (map_s (\<lambda>n. bind_s (lift_s (py_get (ref_cores s) n)) (\<lambda>c. new (Inr (shown c))))
               [0..<length (ref_cores s)]) (\<lambda>cs.
     bind_s (map_s (\<lambda>n. bind_s (lift_s (py_get (ref_Us s) n)) (\<lambda>U.
                         case U of
                           None \<Rightarrow> pure_s None
                         | Some u \<Rightarrow> bind_s (new (Inr (shown u))) (\<lambda>u'. pure_s (Some u'))))
               [0..<length (ref_cores s)]) (\<lambda>us.
     Tensor_of_refs cs (Some us) (Some (ref_idxs s))))"

text \<open>
  The product with a number (lines 116 to 119): the clone, then the in-place product on
  the storage of the first core of the clone, which the store records.
\<close>

definition mul_scalar_ref :: "net_ref \<Rightarrow> real \<Rightarrow> store \<Rightarrow> error + net_ref \<times> store" where
  "mul_scalar_ref s x =
     bind_s (clone_ref s) (\<lambda>result. bind_s (lift_s (py_get (ref_cores result) 0)) (\<lambda>c0 st.
     Inr (scale_net_at (storage c0) x result, st\<lparr>writes := writes st @ [(storage c0, x)]\<rparr>)))"

text \<open>\<^verbatim>\<open>__sub__\<close> (lines 106 and 107) and \<^verbatim>\<open>__truediv__\<close> by a number (lines 147 and 148).\<close>

definition sub_ref :: "net_ref \<Rightarrow> net_ref \<Rightarrow> store \<Rightarrow> error + net_ref \<times> store" where
  "sub_ref s t = bind_s (mul_scalar_ref t (- 1)) (\<lambda>t1. add_ref s t1)"

definition truediv_ref :: "net_ref \<Rightarrow> real \<Rightarrow> store \<Rightarrow> error + net_ref \<times> store" where
  "truediv_ref s x = (if x = 0 then lift_s (Inl ZeroDivisionError) else mul_scalar_ref s (1 / x))"

text \<open>
  An operation allocates when, whenever it returns, the next free address has not
  decreased, no in-place product has been recorded, and the storages \<open>F x\<close> of its result
  \<open>x\<close> are at addresses that were free before it.
\<close>

definition allocates :: "('a \<Rightarrow> nat list) \<Rightarrow> (store \<Rightarrow> error + 'a \<times> store) \<Rightarrow> bool" where
  "allocates F m =
     (\<forall>st x st'. m st = Inr (x, st') \<longrightarrow>
        next_free st \<le> next_free st' \<and> writes st' = writes st
        \<and> list_all (\<lambda>a. next_free st \<le> a) (F x))"

text \<open>The result of an operation without the store, for the comparison with the operations on arrays.\<close>

definition value_of :: "('a \<Rightarrow> 'b) \<Rightarrow> error + 'a \<times> store \<Rightarrow> error + 'b" where
  "value_of f r = (case r of Inl e \<Rightarrow> Inl e | Inr (x, st) \<Rightarrow> Inr (f x))"

text \<open>
  Item access by a sequence of entries. An array of the result is placed by its origin:
  at a free address, as the core of the receiver itself, or as a view with the address of
  the core or factor of the receiver that it is taken from.
\<close>

definition place :: "aref list \<Rightarrow> aref option list \<Rightarrow> nat \<Rightarrow> origin \<Rightarrow> arr \<Rightarrow> aref" where
  "place rc ru a og x =
     (case og of
        Allocated \<Rightarrow> \<lparr>storage = a, shown = x\<rparr>
      | Receiver_core n \<Rightarrow> rc ! n
      | View_of_core n \<Rightarrow> \<lparr>storage = storage (rc ! n), shown = x\<rparr>
      | View_of_factor n \<Rightarrow>
          \<lparr>storage = (case ru ! n of Some u \<Rightarrow> storage u | None \<Rightarrow> a), shown = x\<rparr>)"

datatype item_ref = NumberR real | NetworkR net_ref

definition getitem_ref :: "nat \<Rightarrow> net_ref \<Rightarrow> key_entry list \<Rightarrow> error + item_ref \<times> nat" where
  "getitem_ref fr s key =
     bind_e (getitem_entries (net_of s) key) (\<lambda>it.
     case it of
       Number x \<Rightarrow> Inr (NumberR x, fr)
     | Network u \<Rightarrow>
         bind_e (getitem_src (net_of s) key) (\<lambda>(cs, us).
         let n = length (cores u); m = length (Us u) in
         Inr (NetworkR
                \<lparr>ref_cores = map2 (\<lambda>(a, og) x. place (ref_cores s) (ref_Us s) a og x)
                               (zip [fr..<fr + n] cs) (cores u),
                 ref_Us = map2 (\<lambda>(a, og) u. map_option (place (ref_cores s) (ref_Us s) a og) u)
                            (zip [fr + n..<fr + n + m] us) (Us u),
                 ref_idxs = \<lparr>label_storage = fr + n + m, label_lists = idxs u\<rparr>\<rparr>,
              fr + n + m + 1)))"

section \<open>Networks and primitives of the examples\<close>

text \<open>
  Two cores with two axes each, of two rows and one column: the network that
  \<^verbatim>\<open>Tensor([A, B])\<close> builds from the columns 1, 2 and 3, 4.
\<close>

definition cp_pair :: Tensor where
  "cp_pair = \<lparr>cores = [\<lparr>sizes = [2, 1], elems = [1, 2]\<rparr>, \<lparr>sizes = [2, 1], elems = [3, 4]\<rparr>],
              Us = [None, None], idxs = [[0, 1], [0, 1]]\<rparr>"




text \<open>
  A network of one core with a factor of three rows, with its arrays at the addresses 0
  and 1, and two networks of two cores without factors, with their arrays at the
  addresses 0 to 4.
\<close>

definition tucker_ref :: net_ref where
  "tucker_ref =
     \<lparr>ref_cores = [\<lparr>storage = 0, shown = \<lparr>sizes = [1, 2, 1], elems = [1, 2]\<rparr>\<rparr>],
      ref_Us = [Some \<lparr>storage = 1, shown = \<lparr>sizes = [3, 2], elems = [1, 0, 0, 1, 1, 1]\<rparr>\<rparr>],
      ref_idxs = \<lparr>label_storage = 2, label_lists = [[0, 1, 2]]\<rparr>\<rparr>"

definition pair_ref_1 :: net_ref where
  "pair_ref_1 =
     \<lparr>ref_cores = [\<lparr>storage = 0, shown = \<lparr>sizes = [1, 2, 1], elems = [1, 2]\<rparr>\<rparr>,
                   \<lparr>storage = 1, shown = \<lparr>sizes = [1, 2, 1], elems = [1, 3]\<rparr>\<rparr>],
      ref_Us = [None, None],
      ref_idxs = \<lparr>label_storage = 2, label_lists = [[0, 1], [0, 1]]\<rparr>\<rparr>"

definition pair_ref_2 :: net_ref where
  "pair_ref_2 =
     \<lparr>ref_cores = [\<lparr>storage = 3, shown = \<lparr>sizes = [1, 2, 1], elems = [3, 5]\<rparr>\<rparr>,
                   \<lparr>storage = 4, shown = \<lparr>sizes = [1, 2, 1], elems = [2, 1]\<rparr>\<rparr>],
      ref_Us = [None, None],
      ref_idxs = \<lparr>label_storage = 5, label_lists = [[0, 1], [0, 1]]\<rparr>\<rparr>"

section \<open>Lossless construction from a dense array\<close>

lemma bind_e_simps [simp]:
  "bind_e (Inl e) f = Inl e" "bind_e (Inr x) f = f x"
  by (simp_all add: bind_e_def)

lemma sum_list_delta_left:
  "k < m \<Longrightarrow> (\<Sum>i\<leftarrow>[0..<m]. (if i = k then (1::real) else 0) * f i) = f k"
  by (simp add: interv_sum_list_conv_sum_set_nat if_distrib[where f = "\<lambda>x. x * _"] cong: if_cong)

lemma sum_list_delta_left':
  "k < m \<Longrightarrow> (\<Sum>i\<leftarrow>[0..<m]. (if k = i then (1::real) else 0) * f i) = f k"
  by (simp add: interv_sum_list_conv_sum_set_nat if_distrib[where f = "\<lambda>x. x * _"] cong: if_cong)

lemma sum_list_delta_right:
  "k < m \<Longrightarrow> (\<Sum>i\<leftarrow>[0..<m]. f i * (if i = k then (1::real) else 0)) = f k"
  by (simp add: interv_sum_list_conv_sum_set_nat if_distrib[where f = "\<lambda>x. _ * x"] cong: if_cong)

lemma flat_mod: "n div j mod b * j + n mod j = n mod (b * (j::nat))"
  using mod_mult2_eq[of n j b] by (simp add: mult.commute)

lemma flat2_less: "i < a \<Longrightarrow> j < b \<Longrightarrow> i * b + j < a * (b::nat)"
proof -
  assume h: "i < a" "j < b"
  then have "i * b + j < i * b + b" by simp
  also have "\<dots> = Suc i * b" by simp
  also have "\<dots> \<le> a * b" using h by (intro mult_le_mono1) simp
  finally show ?thesis .
qed

lemma eye_length [simp]: "length (elems (eye n)) = n * n"
  by (simp add: eye_def tabulate2_def)

lemma eye_sizes [simp]: "sizes (eye n) = [n, n]"
  by (simp add: eye_def tabulate2_def)

lemma eye_nth: "i < n \<Longrightarrow> j < n \<Longrightarrow> elems (eye n) ! (i * n + j) = (if i = j then 1 else 0)"
  by (simp add: eye_def tabulate2_def flat2_less)

lemma infer_shape3 [simp]:
  "infer_shape n [Some a, Some b, Some c] = (if a * b * c = n then Inr [a, b, c] else Inl RuntimeError)"
  by (simp add: infer_shape_def mult.assoc)

lemma infer_shape2 [simp]:
  "infer_shape n [Some a, Some b] = (if a * b = n then Inr [a, b] else Inl RuntimeError)"
  by (simp add: infer_shape_def)

lemma infer_shape_hole_right [simp]:
  "infer_shape n [Some a, None] = (if a \<noteq> 0 \<and> n mod a = 0 then Inr [a, n div a] else Inl RuntimeError)"
  by (simp add: infer_shape_def)

lemma infer_shape_hole_left [simp]:
  "infer_shape n [None, Some b] = (if b \<noteq> 0 \<and> n mod b = 0 then Inr [n div b, b] else Inl RuntimeError)"
  by (simp add: infer_shape_def)

lemma infer_shape_all:
  "infer_shape n (map Some sh) = (if prod_list sh = n then Inr sh else Inl RuntimeError)"
  by (simp add: infer_shape_def o_def)

text \<open>Contracting with an identity on either side.\<close>

lemma einsum_ai_ibj_right_id:
  assumes "sizes x = [p, b * j]" "length (elems x) = p * (b * j)"
  shows "einsum_ai_ibj x \<lparr>sizes = [b * j, b, j], elems = elems (eye (b * j))\<rparr>
         = Inr \<lparr>sizes = [p, b, j], elems = elems x\<rparr>"
proof -
  let ?m = "b * j"
  let ?y = "\<lparr>sizes = [?m, b, j], elems = elems (eye ?m)\<rparr>"
  have "map (\<lambda>n. \<Sum>i\<leftarrow>[0..<?m]. at2 x (n div ?m) i * at3 ?y i (n div j mod b) (n mod j)) [0..<p * b * j]
        = elems x"
  proof (rule nth_equalityI)
    show "length (map (\<lambda>n. \<Sum>i\<leftarrow>[0..<?m]. at2 x (n div ?m) i * at3 ?y i (n div j mod b) (n mod j)) [0..<p * b * j]) = length (elems x)"
      using assms by (simp add: mult.assoc)
  next
    fix n assume "n < length (map (\<lambda>n. \<Sum>i\<leftarrow>[0..<?m]. at2 x (n div ?m) i * at3 ?y i (n div j mod b) (n mod j)) [0..<p * b * j])"
    then have n: "n < p * b * j" by simp
    then have j: "0 < j" and b: "0 < b" by (cases j; cases b; simp)+
    let ?c = "n div j mod b * j + n mod j"
    have c: "?c < ?m" using j b by (simp add: flat2_less)
    have cm: "?c = n mod ?m" by (rule flat_mod)
    have s1: "sizes x ! 1 = ?m" using assms by simp
    have "(\<Sum>i\<leftarrow>[0..<?m]. at2 x (n div ?m) i * at3 ?y i (n div j mod b) (n mod j))
          = (\<Sum>i\<leftarrow>[0..<?m]. at2 x (n div ?m) i * (if i = ?c then 1 else 0))"
    proof (rule arg_cong[where f = sum_list], rule map_cong[OF refl])
      fix i assume "i \<in> set [0..<?m]"
      then have i: "i < ?m" by simp
      have "at3 ?y i (n div j mod b) (n mod j) = elems (eye ?m) ! ((i * b + n div j mod b) * j + n mod j)"
        by (simp add: at3_def)
      also have "(i * b + n div j mod b) * j + n mod j = i * ?m + ?c" by (simp add: algebra_simps)
      also have "elems (eye ?m) ! (i * ?m + ?c) = (if i = ?c then 1 else 0)" by (rule eye_nth[OF i c])
      finally show "at2 x (n div ?m) i * at3 ?y i (n div j mod b) (n mod j) = at2 x (n div ?m) i * (if i = ?c then 1 else 0)"
        by simp
    qed
    also have "\<dots> = at2 x (n div ?m) ?c" by (rule sum_list_delta_right[OF c])
    also have "\<dots> = elems x ! n" unfolding at2_def s1 cm div_mult_mod_eq by (rule refl)
    finally show "map (\<lambda>n. \<Sum>i\<leftarrow>[0..<?m]. at2 x (n div ?m) i * at3 ?y i (n div j mod b) (n mod j)) [0..<p * b * j] ! n = elems x ! n"
      using n by simp
  qed
  then show ?thesis using assms by (simp add: einsum_ai_ibj_def dim_def tabulate3_def)
qed

lemma einsum_ai_ibj_left_id:
  assumes "sizes y = [p, b, j]" "length (elems y) = p * b * j"
  shows "einsum_ai_ibj \<lparr>sizes = [p, p], elems = elems (eye p)\<rparr> y
         = Inr \<lparr>sizes = [p, b, j], elems = elems y\<rparr>"
proof -
  let ?x = "\<lparr>sizes = [p, p], elems = elems (eye p)\<rparr>"
  have "map (\<lambda>n. \<Sum>i\<leftarrow>[0..<p]. at2 ?x (n div (b * j)) i * at3 y i (n div j mod b) (n mod j)) [0..<p * b * j]
        = elems y"
  proof (rule nth_equalityI)
    show "length (map (\<lambda>n. \<Sum>i\<leftarrow>[0..<p]. at2 ?x (n div (b * j)) i * at3 y i (n div j mod b) (n mod j)) [0..<p * b * j]) = length (elems y)"
      using assms by simp
  next
    fix n assume "n < length (map (\<lambda>n. \<Sum>i\<leftarrow>[0..<p]. at2 ?x (n div (b * j)) i * at3 y i (n div j mod b) (n mod j)) [0..<p * b * j])"
    then have n: "n < p * b * j" by simp
    then have j: "0 < j" and b: "0 < b" by (cases j; cases b; simp)+
    let ?a = "n div (b * j)"
    have a: "?a < p" using n j b by (simp add: less_mult_imp_div_less mult.assoc)
    have "(\<Sum>i\<leftarrow>[0..<p]. at2 ?x ?a i * at3 y i (n div j mod b) (n mod j))
          = (\<Sum>i\<leftarrow>[0..<p]. (if i = ?a then 1 else 0) * at3 y i (n div j mod b) (n mod j))"
    proof (rule arg_cong[where f = sum_list], rule map_cong[OF refl])
      fix i assume "i \<in> set [0..<p]"
      then have i: "i < p" by simp
      show "at2 ?x ?a i * at3 y i (n div j mod b) (n mod j) = (if i = ?a then 1 else 0) * at3 y i (n div j mod b) (n mod j)"
        using eye_nth[OF a i] by (auto simp add: at2_def)
    qed
    also have "\<dots> = at3 y ?a (n div j mod b) (n mod j)" by (rule sum_list_delta_left[OF a])
    also have "\<dots> = elems y ! (?a * (b * j) + (n div j mod b * j + n mod j))"
      using assms by (simp add: at3_def algebra_simps)
    also have "n div j mod b * j + n mod j = n mod (b * j)" by (rule flat_mod)
    also have "?a * (b * j) + n mod (b * j) = n" by (rule div_mult_mod_eq)
    finally show "map (\<lambda>n. \<Sum>i\<leftarrow>[0..<p]. at2 ?x (n div (b * j)) i * at3 y i (n div j mod b) (n mod j)) [0..<p * b * j] ! n = elems y ! n"
      using n by simp
  qed
  then show ?thesis using assms by (simp add: einsum_ai_ibj_def dim_def tabulate3_def)
qed

lemma prod_drop_Suc: "m < length sh \<Longrightarrow> prod_list (drop m sh) = sh ! m * prod_list (drop (Suc m) (sh::nat list))"
  by (simp add: Cons_nth_drop_Suc[symmetric])

lemma prod_take_Suc: "m < length sh \<Longrightarrow> prod_list (take (Suc m) sh) = prod_list (take m sh) * (sh::nat list) ! m"
  by (simp add: take_Suc_conv_app_nth)

lemma prod_list_pos: "\<forall>s\<in>set sh. 0 < s \<Longrightarrow> 0 < prod_list (sh::nat list)"
  by (induction sh) auto

lemma prod_drop_pos: "\<forall>s\<in>set sh. 0 < s \<Longrightarrow> 0 < prod_list (drop m (sh::nat list))"
  by (rule prod_list_pos) (auto dest: in_set_dropD)

lemma prod_take_pos: "\<forall>s\<in>set sh. 0 < s \<Longrightarrow> 0 < prod_list (take m (sh::nat list))"
  by (rule prod_list_pos) (auto dest: in_set_takeD)

lemma init_cores_Nil:
  "init_cores sh [] d =
     bind_e (py_floordiv (sizes d ! 0) (sh ! (length sh - 1))) (\<lambda>q.
     bind_e (reshape d [Some q, Some (sh ! (length sh - 1)), Some 1]) (\<lambda>c. Inr [c]))"
  by (simp add: init_cores_def)

lemma init_cores_Cons:
  "init_cores sh (n # ns) d =
     bind_e (init_step sh n d) (\<lambda>(c, d'). bind_e (init_cores sh ns d') (\<lambda>cs. Inr (c # cs)))"
  by (auto simp add: init_cores_def bind_e_def split: sum.splits prod.splits)

lemma full_step_right_id:
  assumes "m = b * j" "0 < j" "length xs = p * m"
  shows "full_loop \<lparr>sizes = [p, m], elems = xs\<rparr> (\<lparr>sizes = [m, b, j], elems = elems (eye m)\<rparr> # cs)
         = full_loop \<lparr>sizes = [p * b, j], elems = xs\<rparr> cs"
proof -
  have "einsum_ai_ibj \<lparr>sizes = [p, m], elems = xs\<rparr> \<lparr>sizes = [m, b, j], elems = elems (eye m)\<rparr>
        = Inr \<lparr>sizes = [p, b, j], elems = xs\<rparr>"
    using einsum_ai_ibj_right_id[of "\<lparr>sizes = [p, m], elems = xs\<rparr>" p b j] assms by simp
  then show ?thesis using assms by (simp add: dim_def reshape_def)
qed

lemma full_step_left_id:
  assumes "0 < j" "length ys = p * b * j"
  shows "full_loop \<lparr>sizes = [p, p], elems = elems (eye p)\<rparr> (\<lparr>sizes = [p, b, j], elems = ys\<rparr> # cs)
         = full_loop \<lparr>sizes = [p * b, j], elems = ys\<rparr> cs"
proof -
  have "einsum_ai_ibj \<lparr>sizes = [p, p], elems = elems (eye p)\<rparr> \<lparr>sizes = [p, b, j], elems = ys\<rparr>
        = Inr \<lparr>sizes = [p, b, j], elems = ys\<rparr>"
    using einsum_ai_ibj_left_id[of "\<lparr>sizes = [p, b, j], elems = ys\<rparr>" p b j] assms by simp
  then show ?thesis using assms by (simp add: dim_def reshape_def)
qed

lemma py_floordiv_mult [simp]: "0 < b \<Longrightarrow> py_floordiv (a * b) b = Inr a"
  "0 < b \<Longrightarrow> py_floordiv (b * a) b = Inr a"
  by (simp_all add: py_floordiv_def)

text \<open>Second phase of the constructor: the data has been stored, identity cores follow.\<close>

lemma init_cores_identity_tail:
  assumes pos: "\<forall>s\<in>set sh. 0 < s"
  shows "m < length sh \<Longrightarrow>
    \<exists>cs. init_cores sh [Suc m..<length sh]
            \<lparr>sizes = [prod_list (drop m sh) * sh ! m, prod_list (drop (Suc m) sh)],
             elems = elems (eye (prod_list (drop m sh)))\<rparr> = Inr cs
      \<and> cs \<noteq> [] \<and> tt_chain (prod_list (drop m sh)) cs
      \<and> map (\<lambda>c. sizes c ! 1) cs = drop m sh
      \<and> (\<forall>p xs. length xs = p * prod_list (drop m sh) \<longrightarrow>
            full_loop \<lparr>sizes = [p, prod_list (drop m sh)], elems = xs\<rparr> cs
            = Inr \<lparr>sizes = [p * prod_list (drop m sh), 1], elems = xs\<rparr>)"
proof (induction "length sh - m" arbitrary: m)
  case 0
  then show ?case by simp
next
  case (Suc k)
  let ?M = "prod_list (drop m sh)" and ?M' = "prod_list (drop (Suc m) sh)"
  let ?d = "\<lparr>sizes = [?M * sh ! m, ?M'], elems = elems (eye ?M)\<rparr>"
  have m: "m < length sh" by fact
  have b: "0 < sh ! m" using pos m by simp
  have M: "?M = sh ! m * ?M'" by (rule prod_drop_Suc[OF m])
  have M'pos: "0 < ?M'" by (rule prod_drop_pos[OF pos])
  show ?case
  proof (cases "Suc m = length sh")
    case True
    then have M'1: "?M' = 1" and Mb: "?M = sh ! m" using M by simp_all
    have last: "length sh - Suc 0 = m" using True by simp
    let ?c = "\<lparr>sizes = [sh ! m, sh ! m, 1], elems = elems (eye (sh ! m))\<rparr>"
    have ic: "init_cores sh [Suc m..<length sh] ?d = Inr [?c]"
      using True b by (simp add: init_cores_Nil last Mb M'1 reshape_def)
    have fl: "full_loop \<lparr>sizes = [p, sh ! m], elems = xs\<rparr> [?c] = Inr \<lparr>sizes = [p * sh ! m, 1], elems = xs\<rparr>"
      if "length xs = p * sh ! m" for p xs
      using full_step_right_id[of "sh ! m" "sh ! m" 1 xs p "[]"] that by simp
    have dr: "drop m sh = [sh ! m]" using True m by (simp add: Cons_nth_drop_Suc[symmetric])
    have tt': "tt_chain ?M [?c]" by (simp add: dim_def Mb)
    show ?thesis
      unfolding ic using fl tt' by (simp add: Mb dr del: tt_chain.simps full_loop.simps)
  next
    case False
    then have m': "Suc m < length sh" using m by simp
    have k: "k = length sh - Suc m" using Suc.hyps(2) by simp
    let ?M'' = "prod_list (drop (Suc (Suc m)) sh)"
    have b': "0 < sh ! Suc m" using pos m' by simp
    have M': "?M' = sh ! Suc m * ?M''" by (rule prod_drop_Suc[OF m'])
    let ?c = "\<lparr>sizes = [?M, sh ! m, ?M'], elems = elems (eye ?M)\<rparr>"
    let ?d' = "\<lparr>sizes = [?M' * sh ! Suc m, ?M''], elems = elems (eye ?M')\<rparr>"
    have ge: "\<not> ?M * sh ! m < ?M'" using M b by (simp add: not_less trans_le_add1)
    have len1: "?M * sh ! m * ?M' = ?M * ?M" using M by (simp add: mult.assoc)
    have len2: "?M' * sh ! Suc m * ?M'' = ?M' * ?M'" using M' by (simp add: mult.assoc)
    have q1: "py_floordiv (?M * sh ! m) (sh ! m) = Inr ?M" using b by simp
    have q2: "py_floordiv ?M' (sh ! Suc m) = Inr ?M''" using b' M' by simp
    have step: "init_step sh (Suc m) ?d = Inr (?c, ?d')"
      using ge M'[symmetric] by (simp add: init_step_def q1 q2 reshape_def len1 len2)
    from Suc.hyps(1)[OF k m']
    obtain cs where cs: "init_cores sh [Suc (Suc m)..<length sh] ?d' = Inr cs"
      and ne: "cs \<noteq> []" and tt: "tt_chain ?M' cs" and fr: "map (\<lambda>c. sizes c ! 1) cs = drop (Suc m) sh"
      and fl: "\<And>p xs. length xs = p * ?M' \<Longrightarrow>
            full_loop \<lparr>sizes = [p, ?M'], elems = xs\<rparr> cs = Inr \<lparr>sizes = [p * ?M', 1], elems = xs\<rparr>"
      by blast
    have ic: "init_cores sh [Suc m..<length sh] ?d = Inr (?c # cs)"
      using m' by (simp add: upt_conv_Cons init_cores_Cons step cs)
    have tt': "tt_chain ?M (?c # cs)" using tt M'pos len1[symmetric] by (simp add: dim_def)
    have fl': "full_loop \<lparr>sizes = [p, ?M], elems = xs\<rparr> (?c # cs) = Inr \<lparr>sizes = [p * ?M, 1], elems = xs\<rparr>"
      if len: "length xs = p * ?M" for p xs
    proof -
      have "full_loop \<lparr>sizes = [p, ?M], elems = xs\<rparr> (?c # cs)
            = full_loop \<lparr>sizes = [p * sh ! m, ?M'], elems = xs\<rparr> cs"
        by (rule full_step_right_id[OF M M'pos len])
      also have "\<dots> = Inr \<lparr>sizes = [p * sh ! m * ?M', 1], elems = xs\<rparr>"
        by (rule fl) (simp add: len M mult.assoc)
      finally show ?thesis by (simp add: M mult.assoc)
    qed
    show ?thesis
      unfolding ic using fl' tt' fr m
      by (simp add: Cons_nth_drop_Suc del: tt_chain.simps full_loop.simps)
  qed
qed

text \<open>First phase: identity cores, until the data is stored as a core.\<close>

lemma init_cores_data:
  assumes pos: "\<forall>s\<in>set sh. 0 < s" and len: "length xs = prod_list sh"
  shows "m < length sh \<Longrightarrow>
    \<exists>cs. init_cores sh [Suc m..<length sh]
            \<lparr>sizes = [prod_list (take (Suc m) sh), prod_list (drop (Suc m) sh)], elems = xs\<rparr> = Inr cs
      \<and> cs \<noteq> [] \<and> tt_chain (prod_list (take m sh)) cs
      \<and> map (\<lambda>c. sizes c ! 1) cs = drop m sh
      \<and> full_loop \<lparr>sizes = [prod_list (take m sh), prod_list (take m sh)],
                     elems = elems (eye (prod_list (take m sh)))\<rparr> cs
          = Inr \<lparr>sizes = [prod_list sh, 1], elems = xs\<rparr>"
proof (induction "length sh - m" arbitrary: m)
  case 0
  then show ?case by simp
next
  case (Suc k)
  let ?L = "prod_list (take m sh)" and ?L' = "prod_list (take (Suc m) sh)"
  let ?M = "prod_list (drop m sh)" and ?M' = "prod_list (drop (Suc m) sh)"
  let ?d = "\<lparr>sizes = [?L', ?M'], elems = xs\<rparr>"
  have m: "m < length sh" by fact
  have b: "0 < sh ! m" using pos m by simp
  have M: "?M = sh ! m * ?M'" by (rule prod_drop_Suc[OF m])
  have L': "?L' = ?L * sh ! m" by (rule prod_take_Suc[OF m])
  have M'pos: "0 < ?M'" by (rule prod_drop_pos[OF pos])
  have all: "prod_list sh = ?L' * ?M'"
    using prod_list.append[of "take (Suc m) sh" "drop (Suc m) sh"] by simp
  show ?case
  proof (cases "Suc m = length sh")
    case True
    then have M'1: "?M' = 1" by simp
    have upt: "[Suc m..<length sh] = []" using True by simp
    have last: "length sh - Suc 0 = m" using True by simp
    have lenxs: "length xs = ?L * sh ! m" using len all M'1 L' by simp
    have q: "py_floordiv ?L' (sh ! m) = Inr ?L" using b L' by simp
    let ?c = "\<lparr>sizes = [?L, sh ! m, 1], elems = xs\<rparr>"
    have ic: "init_cores sh [Suc m..<length sh] ?d = Inr [?c]"
      by (simp add: upt init_cores_Nil last q reshape_def lenxs)
    have "full_loop \<lparr>sizes = [?L, ?L], elems = elems (eye ?L)\<rparr> [?c]
          = full_loop \<lparr>sizes = [?L * sh ! m, 1], elems = xs\<rparr> []"
      by (rule full_step_left_id) (simp_all add: lenxs)
    also have "?L * sh ! m = prod_list sh" using len lenxs by simp
    finally have fl: "full_loop \<lparr>sizes = [?L, ?L], elems = elems (eye ?L)\<rparr> [?c]
          = Inr \<lparr>sizes = [prod_list sh, 1], elems = xs\<rparr>"
      by simp
    have dr: "drop m sh = [sh ! m]" using True m by (simp add: Cons_nth_drop_Suc[symmetric])
    have tt': "tt_chain ?L [?c]" by (simp add: dim_def lenxs)
    show ?thesis
      unfolding ic using fl tt' by (simp add: dr del: tt_chain.simps full_loop.simps)
  next
    case False
    then have m': "Suc m < length sh" using m by simp
    have k: "k = length sh - Suc m" using Suc.hyps(2) by simp
    let ?L'' = "prod_list (take (Suc (Suc m)) sh)"
    let ?M'' = "prod_list (drop (Suc (Suc m)) sh)"
    have b': "0 < sh ! Suc m" using pos m' by simp
    have M': "?M' = sh ! Suc m * ?M''" by (rule prod_drop_Suc[OF m'])
    have L'': "?L'' = ?L' * sh ! Suc m" by (rule prod_take_Suc[OF m'])
    have q1: "py_floordiv ?L' (sh ! m) = Inr ?L" using b L' by simp
    have q2: "py_floordiv ?M' (sh ! Suc m) = Inr ?M''" using b' M' by simp
    show ?thesis
    proof (cases "?L' < ?M'")
      case True
      let ?c = "\<lparr>sizes = [?L, sh ! m, ?L'], elems = elems (eye ?L')\<rparr>"
      let ?d' = "\<lparr>sizes = [?L'', ?M''], elems = xs\<rparr>"
      have len1: "?L * sh ! m * ?L' = ?L' * ?L'" using L' by simp
      have len2: "?L' * sh ! Suc m * ?M'' = length xs" using len all M' by (simp add: mult.assoc)
      have len2': "?L'' * ?M'' = length xs" using len2 L'' by simp
      have step: "init_step sh (Suc m) ?d = Inr (?c, ?d')"
        using True by (simp add: init_step_def q1 q2 reshape_def L'[symmetric] L''[symmetric] len2')
      from Suc.hyps(1)[OF k m']
      obtain cs where cs: "init_cores sh [Suc (Suc m)..<length sh] ?d' = Inr cs"
        and ne: "cs \<noteq> []" and tt: "tt_chain ?L' cs" and fr: "map (\<lambda>c. sizes c ! 1) cs = drop (Suc m) sh"
        and fl: "full_loop \<lparr>sizes = [?L', ?L'], elems = elems (eye ?L')\<rparr> cs
                 = Inr \<lparr>sizes = [prod_list sh, 1], elems = xs\<rparr>"
        by blast
      have ic: "init_cores sh [Suc m..<length sh] ?d = Inr (?c # cs)"
        using m' by (simp add: upt_conv_Cons init_cores_Cons step cs)
      have tt': "tt_chain ?L (?c # cs)"
        using tt prod_take_pos[OF pos, of "Suc m"] len1[symmetric] by (simp add: dim_def)
      have "full_loop \<lparr>sizes = [?L, ?L], elems = elems (eye ?L)\<rparr> (?c # cs)
            = full_loop \<lparr>sizes = [?L * sh ! m, ?L'], elems = elems (eye ?L')\<rparr> cs"
        by (rule full_step_left_id) (simp_all add: prod_take_pos[OF pos] len1)
      then have fl': "full_loop \<lparr>sizes = [?L, ?L], elems = elems (eye ?L)\<rparr> (?c # cs)
            = Inr \<lparr>sizes = [prod_list sh, 1], elems = xs\<rparr>"
        using fl by (simp add: L'[symmetric])
      show ?thesis
        unfolding ic using fl' tt' fr m
        by (simp add: Cons_nth_drop_Suc del: tt_chain.simps full_loop.simps)
    next
      case False
      let ?c = "\<lparr>sizes = [?L, sh ! m, ?M'], elems = xs\<rparr>"
      let ?d' = "\<lparr>sizes = [?M' * sh ! Suc m, ?M''], elems = elems (eye ?M')\<rparr>"
      have len1: "?L * sh ! m * ?M' = length xs" using len all L' by simp
      have len2: "?M' * sh ! Suc m * ?M'' = ?M' * ?M'" using M' by (simp add: mult.assoc)
      have step: "init_step sh (Suc m) ?d = Inr (?c, ?d')"
        using False M'[symmetric] by (simp add: init_step_def q1 q2 reshape_def len1 len2)
      from init_cores_identity_tail[OF pos m']
      obtain cs where cs: "init_cores sh [Suc (Suc m)..<length sh] ?d' = Inr cs"
        and ne: "cs \<noteq> []" and tt: "tt_chain ?M' cs" and fr: "map (\<lambda>c. sizes c ! 1) cs = drop (Suc m) sh"
        and fl: "\<And>p ys. length ys = p * ?M' \<Longrightarrow>
            full_loop \<lparr>sizes = [p, ?M'], elems = ys\<rparr> cs = Inr \<lparr>sizes = [p * ?M', 1], elems = ys\<rparr>"
        by blast
      have ic: "init_cores sh [Suc m..<length sh] ?d = Inr (?c # cs)"
        using m' by (simp add: upt_conv_Cons init_cores_Cons step cs)
      have tt': "tt_chain ?L (?c # cs)" using tt M'pos len1[symmetric] by (simp add: dim_def)
      have "full_loop \<lparr>sizes = [?L, ?L], elems = elems (eye ?L)\<rparr> (?c # cs)
            = full_loop \<lparr>sizes = [?L * sh ! m, ?M'], elems = xs\<rparr> cs"
        by (rule full_step_left_id) (simp_all add: M'pos len1)
      also have "\<dots> = Inr \<lparr>sizes = [?L * sh ! m * ?M', 1], elems = xs\<rparr>"
        by (rule fl) (simp add: len1)
      finally have fl': "full_loop \<lparr>sizes = [?L, ?L], elems = elems (eye ?L)\<rparr> (?c # cs)
            = Inr \<lparr>sizes = [prod_list sh, 1], elems = xs\<rparr>"
        using len1 len by simp
      show ?thesis
        unfolding ic using fl' tt' fr m
        by (simp add: Cons_nth_drop_Suc del: tt_chain.simps full_loop.simps)
    qed
  qed
qed

lemma tt_chain_dims: "tt_chain r cs \<Longrightarrow> list_all (\<lambda>c. dim c = 3) cs"
  by (induction cs arbitrary: r) auto

lemma tt_chain_ranks_match: "tt_chain r cs \<Longrightarrow> ranks_match cs"
proof (induction cs arbitrary: r)
  case Nil
  then show ?case by simp
next
  case (Cons c cs)
  then have c: "dim c = 3" and rest: "tt_chain (sizes c ! 2) cs" by simp_all
  have "sizes c \<noteq> []" using c by (auto simp add: dim_def)
  then have last: "last (sizes c) = sizes c ! 2" using c by (simp add: dim_def last_conv_nth)
  show ?case using rest Cons.IH[OF rest] by (cases cs) (simp_all add: last)
qed

lemma shape_from_no_factors:
  "list_all (\<lambda>c. dim c = 3) cs \<Longrightarrow>
   shape_from cs (replicate (length cs) None) = Inr (map (\<lambda>c. sizes c ! 1) cs)"
  by (induction cs) (simp_all add: mode_size_def)

lemma expand_cores_no_factors: "expand_cores cs (replicate (length cs) None) = Inr cs"
  by (induction cs) simp_all

lemma full_tucker_no_factors:
  assumes "list_all (\<lambda>c. dim c = 3) cs" "ranks_match cs"
  shows "full_tucker \<lparr>cores = cs, Us = replicate (length cs) None, idxs = ix\<rparr>
         = Inr \<lparr>cores = cs, Us = replicate (length cs) None, idxs = ix\<rparr>"
proof -
  have "list_all (\<lambda>d. 2 \<le> dim d \<and> dim d \<le> 3) cs"
    using assms(1) by (simp add: list_all_iff)
  then show ?thesis
    using assms(2) by (simp add: full_tucker_def expand_cores_no_factors Tensor_of_cores_def)
qed

lemma select_last0_column:
  "length xs = p \<Longrightarrow> select_last0 \<lparr>sizes = [p, 1], elems = xs\<rparr> = Inr \<lparr>sizes = [p], elems = xs\<rparr>"
  by (auto simp add: select_last0_def intro: nth_equalityI)

lemma ones_1_1: "ones [1, 1] = \<lparr>sizes = [1, 1], elems = elems (eye 1)\<rparr>"
  by (simp add: ones_def eye_def tabulate2_def)

text \<open>
  The network that the constructor builds from a dense array with at least one axis and
  no axis of length zero: it has no factors, it is in tensor-train form, its free sizes are
  the shape of the array, and \<^verbatim>\<open>full\<close> gives the array back.
\<close>

lemma Tensor_of_dense_tt:
  assumes ne: "sizes a \<noteq> []" and pos: "\<forall>s\<in>set (sizes a). 0 < s"
    and len: "length (elems a) = prod_list (sizes a)"
  shows "\<exists>cs. Tensor_of_dense a
                = Inr \<lparr>cores = cs, Us = replicate (length cs) None, idxs = map arange (sizes a)\<rparr>
             \<and> tt_chain 1 cs \<and> free_sizes cs = sizes a
             \<and> full \<lparr>cores = cs, Us = replicate (length cs) None, idxs = map arange (sizes a)\<rparr>
                 = Inr a"
proof -
  let ?sh = "sizes a" and ?xs = "elems a"
  have N: "0 < length ?sh" using ne by simp
  have s0: "0 < ?sh ! 0" using pos N by simp
  have t1: "prod_list (take (Suc 0) ?sh) = ?sh ! 0" using N by (simp add: take_Suc_conv_app_nth)
  have all: "prod_list ?sh = ?sh ! 0 * prod_list (drop (Suc 0) ?sh)"
    using prod_drop_Suc[OF N] by simp
  have r0: "reshape a [Some (?sh ! 0), None]
            = Inr \<lparr>sizes = [prod_list (take (Suc 0) ?sh), prod_list (drop (Suc 0) ?sh)], elems = ?xs\<rparr>"
    using s0 by (simp add: reshape_def len all t1)
  from init_cores_data[OF pos len N]
  obtain cs where cs: "init_cores ?sh [Suc 0..<length ?sh]
        \<lparr>sizes = [prod_list (take (Suc 0) ?sh), prod_list (drop (Suc 0) ?sh)], elems = ?xs\<rparr> = Inr cs"
    and tt: "tt_chain 1 cs"
    and fr: "map (\<lambda>c. sizes c ! 1) cs = ?sh"
    and fl: "full_loop \<lparr>sizes = [1, 1], elems = elems (eye 1)\<rparr> cs
             = Inr \<lparr>sizes = [prod_list ?sh, 1], elems = ?xs\<rparr>"
    by auto
  note d3 = tt_chain_dims[OF tt] and rm = tt_chain_ranks_match[OF tt]
  let ?t = "\<lparr>cores = cs, Us = replicate (length cs) None, idxs = map arange ?sh\<rparr>"
  have sf: "shape_from cs (replicate (length cs) None) = Inr ?sh"
    by (simp only: shape_from_no_factors[OF d3] fr)
  have init: "Tensor_of_dense a = Inr ?t"
    using N by (simp add: Tensor_of_dense_def dim_def py_get_def r0 cs sf)
  have free: "map (\<lambda>c. Some (sizes c ! (dim c - 2))) cs = map Some ?sh"
  proof -
    have "map (\<lambda>c. Some (sizes c ! (dim c - 2))) cs = map (\<lambda>c. Some (sizes c ! 1)) cs"
      using d3 by (intro map_cong refl) (simp add: list_all_iff)
    also have "\<dots> = map Some (map (\<lambda>c. sizes c ! 1) cs)" by simp
    finally show ?thesis by (simp only: fr)
  qed
  have "full ?t = Inr \<lparr>sizes = ?sh, elems = ?xs\<rparr>"
    by (simp only: full_def full_tucker_no_factors[OF d3 rm] bind_e_simps Tensor.select_convs
        ones_1_1 fl select_last0_column[OF len] free reshape_def arr.select_convs
        infer_shape_all len if_True refl)
  then have "full ?t = Inr a" by simp
  with init tt fr show ?thesis by (auto simp add: free_sizes_def)
qed


text \<open>
  Claim C1, as the code has it. A dense array with at least one axis and no axis of length
  zero, whose entries fill its shape, is accepted by the constructor (called without
  \<^verbatim>\<open>eps\<close>), and \<^verbatim>\<open>full\<close> of the network gives the array back: the same shape and
  the same entries.
\<close>

theorem C1_dense_roundtrip:
  assumes "sizes a \<noteq> []" and "\<forall>s\<in>set (sizes a). 0 < s"
    and "length (elems a) = prod_list (sizes a)"
  shows "\<exists>t. Tensor_of_dense a = Inr t \<and> full t = Inr a"
  using Tensor_of_dense_tt[OF assms] by blast

text \<open>The theorem at a 2 by 3 array.\<close>

theorem C1_dense_roundtrip_witness:
  "\<exists>t. Tensor_of_dense \<lparr>sizes = [2, 3], elems = [1, 2, 3, 4, 5, 6]\<rparr> = Inr t
       \<and> full t = Inr \<lparr>sizes = [2, 3], elems = [1, 2, 3, 4, 5, 6]\<rparr>"
  using C1_dense_roundtrip[of "\<lparr>sizes = [2, 3], elems = [1, 2, 3, 4, 5, 6]\<rparr>"] by simp

text \<open>
  Claim C1 speaks of every dense array. An array without axes (a scalar) and an array with an
  axis of length zero are dense arrays, and the constructor raises on both: line 37 reads
  \<^verbatim>\<open>shape[0]\<close> of an empty shape, and line 46 divides by the length of the empty axis.
\<close>

theorem C1_degenerate_array_raises:
  "bind_e (Tensor_of_dense \<lparr>sizes = [], elems = [5]\<rparr>) full = Inl IndexError
   \<and> bind_e (Tensor_of_dense \<lparr>sizes = [2, 0], elems = []\<rparr>) full = Inl ZeroDivisionError"
  by (simp add: Tensor_of_dense_def dim_def py_get_def reshape_def init_cores_def init_step_def
      py_floordiv_def)


section \<open>The contraction of a tensor-train chain\<close>

lemma tabulate3_sizes [simp]: "sizes (tabulate3 a b c f) = [a, b, c]"
  by (simp add: tabulate3_def)

lemma tabulate2_sizes [simp]: "sizes (tabulate2 a b f) = [a, b]"
  by (simp add: tabulate2_def)

lemma tabulate3_length [simp]: "length (elems (tabulate3 a b c f)) = a * b * c"
  by (simp add: tabulate3_def)

lemma tabulate2_length [simp]: "length (elems (tabulate2 a b f)) = a * b"
  by (simp add: tabulate2_def)

lemma tabulate3_dim [simp]: "dim (tabulate3 a b c f) = 3"
  by (simp add: dim_def)

lemma tabulate2_dim [simp]: "dim (tabulate2 a b f) = 2"
  by (simp add: dim_def)

lemma flat3_less:
  assumes "i < a" "j < b" "k < c"
  shows "(i * b + j) * c + k < a * b * (c::nat)"
  using flat2_less[OF flat2_less[OF assms(1,2)] assms(3)] .

lemma at2_tabulate2 [simp]: "i < a \<Longrightarrow> j < b \<Longrightarrow> at2 (tabulate2 a b f) i j = f i j"
  by (simp add: at2_def tabulate2_def flat2_less)

lemma at3_tabulate3 [simp]:
  assumes "i < a" "j < b" "k < c"
  shows "at3 (tabulate3 a b c f) i j k = f i j k"
proof -
  let ?n = "(i * b + j) * c + k"
  have n: "?n < a * b * c" by (rule flat3_less[OF assms])
  have 1: "?n mod c = k" using assms by simp
  have 2: "?n div c = i * b + j" using assms by simp
  have 3: "?n div (b * c) = i"
    using assms by (simp add: mult.commute[of b c] div_mult2_eq 2)
  have "elems (tabulate3 a b c f) ! ?n = f (?n div (b * c)) (?n div c mod b) (?n mod c)"
    using n by (simp add: tabulate3_def del: upt_Suc)
  also have "\<dots> = f i j k" unfolding 1 2 3 using assms by simp
  finally show ?thesis by (simp add: at3_def)
qed

lemma tabulate3_cong:
  assumes "\<And>i j k. i < a \<Longrightarrow> j < b \<Longrightarrow> k < c \<Longrightarrow> f i j k = g i j k"
  shows "tabulate3 a b c f = tabulate3 a b c g"
proof -
  have "f (n div (b * c)) (n div c mod b) (n mod c) = g (n div (b * c)) (n div c mod b) (n mod c)"
    if "n < a * b * c" for n
  proof -
    from that have c: "0 < c" and b: "0 < b" by (cases c; cases b; simp)+
    have "n div (b * c) < a" using that b c by (simp add: less_mult_imp_div_less mult.assoc)
    then show ?thesis using b c by (intro assms) simp_all
  qed
  then show ?thesis by (simp add: tabulate3_def)
qed

lemma tabulate2_cong:
  assumes "\<And>i j. i < a \<Longrightarrow> j < b \<Longrightarrow> f i j = g i j"
  shows "tabulate2 a b f = tabulate2 a b g"
proof -
  have "f (n div b) (n mod b) = g (n div b) (n mod b)" if "n < a * b" for n
  proof -
    from that have b: "0 < b" by (cases b) simp_all
    have "n div b < a" using that b by (simp add: less_mult_imp_div_less)
    then show ?thesis using b by (intro assms) simp_all
  qed
  then show ?thesis by (simp add: tabulate2_def)
qed

lemma sum_list_cong_upt:
  "(\<And>l. l < n \<Longrightarrow> f l = g l) \<Longrightarrow> (\<Sum>l\<leftarrow>[0..<n]. f l) = (\<Sum>l\<leftarrow>[0..<n]. (g l :: real))"
  by (rule arg_cong[where f = sum_list], rule map_cong) simp_all

text \<open>One step of the loop in \<^verbatim>\<open>full\<close>, on a tabulated matrix.\<close>

lemma einsum_ai_ibj_tabulate:
  assumes "dim c = 3" "sizes c ! 0 = r"
  shows "einsum_ai_ibj (tabulate2 p r g) c
         = Inr (tabulate3 p (sizes c ! 1) (sizes c ! 2) (\<lambda>a j k. \<Sum>l\<leftarrow>[0..<r]. g a l * at3 c l j k))"
proof -
  have "tabulate3 p (sizes c ! 1) (sizes c ! 2) (\<lambda>a j k. \<Sum>l\<leftarrow>[0..<r]. at2 (tabulate2 p r g) a l * at3 c l j k)
        = tabulate3 p (sizes c ! 1) (sizes c ! 2) (\<lambda>a j k. \<Sum>l\<leftarrow>[0..<r]. g a l * at3 c l j k)"
    by (rule tabulate3_cong, rule sum_list_cong_upt) simp
  then show ?thesis using assms by (simp add: einsum_ai_ibj_def)
qed

lemma reshape_tabulate3:
  assumes "0 < c"
  shows "reshape (tabulate3 a b c f) [None, Some c]
         = Inr (tabulate2 (a * b) c (\<lambda>i k. f (i div b) (i mod b) k))"
proof -
  have "n div (b * c) = n div c div b" for n
    by (simp add: mult.commute[of b c] div_mult2_eq)
  then have "elems (tabulate3 a b c f) = elems (tabulate2 (a * b) c (\<lambda>i k. f (i div b) (i mod b) k))"
    by (simp add: tabulate3_def tabulate2_def)
  then show ?thesis using assms by (simp add: reshape_def tabulate2_def)
qed

lemma full_loop_step:
  assumes "dim c = 3" "sizes c ! 0 = r" "0 < sizes c ! 2"
  shows "full_loop (tabulate2 p r g) (c # cs)
         = full_loop (tabulate2 (p * sizes c ! 1) (sizes c ! 2)
              (\<lambda>i k. \<Sum>l\<leftarrow>[0..<sizes c ! 0]. g (i div sizes c ! 1) l * at3 c l (i mod sizes c ! 1) k)) cs"
proof -
  have "sizes c \<noteq> []" using assms(1) by (auto simp add: dim_def)
  then have last: "last (sizes c) = sizes c ! 2"
    using assms(1) by (simp add: dim_def last_conv_nth)
  show ?thesis
    using assms by (simp add: einsum_ai_ibj_tabulate[OF assms(1,2)] last reshape_tabulate3)
qed

lemma full_loop_chain:
  "tt_chain r cs \<Longrightarrow>
   full_loop (tabulate2 p r g) cs = Inr (tabulate2 (p * prod_list (free_sizes cs)) 1 (chainf g cs))"
proof (induction cs arbitrary: p r g)
  case Nil
  then show ?case by (simp add: free_sizes_def)
next
  case (Cons c cs)
  then have c: "dim c = 3" "sizes c ! 0 = r" "0 < sizes c ! 2" and rest: "tt_chain (sizes c ! 2) cs"
    by simp_all
  show ?case
    unfolding full_loop_step[OF c] Cons.IH[OF rest]
    by (simp add: free_sizes_def mult.assoc)
qed

lemma check_Us_no_factors: "check_Us cs (replicate (length cs) None) = Inr ()"
  by (induction cs) simp_all

lemma Tensor_of_cores_tt:
  assumes "tt_chain 1 cs"
  shows "Tensor_of_cores cs (Some (replicate (length cs) None)) None
         = Inr \<lparr>cores = cs, Us = replicate (length cs) None, idxs = map arange (free_sizes cs)\<rparr>"
    and "Tensor_of_cores cs None None
         = Inr \<lparr>cores = cs, Us = replicate (length cs) None, idxs = map arange (free_sizes cs)\<rparr>"
proof -
  note d3 = tt_chain_dims[OF assms] and rm = tt_chain_ranks_match[OF assms]
  have d23: "list_all (\<lambda>d. 2 \<le> dim d \<and> dim d \<le> 3) cs"
    using d3 by (simp add: list_all_iff)
  show "Tensor_of_cores cs (Some (replicate (length cs) None)) None
         = Inr \<lparr>cores = cs, Us = replicate (length cs) None, idxs = map arange (free_sizes cs)\<rparr>"
    using d23 rm
    by (simp add: Tensor_of_cores_def check_Us_no_factors shape_from_no_factors[OF d3] free_sizes_def)
  show "Tensor_of_cores cs None None
         = Inr \<lparr>cores = cs, Us = replicate (length cs) None, idxs = map arange (free_sizes cs)\<rparr>"
    using d23 rm
    by (simp add: Tensor_of_cores_def shape_from_no_factors[OF d3] free_sizes_def)
qed

lemma ones_tabulate: "ones [1, 1] = tabulate2 1 1 (\<lambda>i k. 1)"
  by (simp add: ones_def tabulate2_def)

lemma select_last0_tabulate:
  "select_last0 (tabulate2 p 1 h) = Inr \<lparr>sizes = [p], elems = map (\<lambda>n. h n 0) [0..<p]\<rparr>"
  by (simp add: select_last0_def tabulate2_def)

text \<open>\<^verbatim>\<open>full\<close> on a network in tensor-train form.\<close>

lemma full_tt:
  assumes tt: "tt_chain 1 cs"
  shows "full \<lparr>cores = cs, Us = replicate (length cs) None, idxs = ix\<rparr>
         = Inr \<lparr>sizes = free_sizes cs, elems = tt_entries cs\<rparr>"
proof -
  note d3 = tt_chain_dims[OF tt] and rm = tt_chain_ranks_match[OF tt]
  have free: "map (\<lambda>c. Some (sizes c ! (dim c - 2))) cs = map Some (free_sizes cs)"
  proof -
    have "map (\<lambda>c. Some (sizes c ! (dim c - 2))) cs = map (\<lambda>c. Some (sizes c ! 1)) cs"
      using d3 by (intro map_cong refl) (simp add: list_all_iff)
    then show ?thesis by (simp add: free_sizes_def)
  qed
  have fl: "full_loop (ones [1, 1]) cs
            = Inr (tabulate2 (prod_list (free_sizes cs)) 1 (chainf (\<lambda>i k. 1) cs))"
    unfolding ones_tabulate full_loop_chain[OF tt] by simp
  have len: "length (map (\<lambda>n. chainf (\<lambda>i k. 1) cs n 0) [0..<prod_list (free_sizes cs)])
             = prod_list (free_sizes cs)" by simp
  show ?thesis
    by (simp only: full_def full_tucker_no_factors[OF d3 rm] bind_e_simps Tensor.select_convs
        fl select_last0_tabulate free reshape_def arr.select_convs infer_shape_all len if_True
        tt_entries_def refl)
qed

section \<open>Addition of networks in tensor-train form\<close>

lemma sum_list_upt_add:
  "(\<Sum>l\<leftarrow>[0..<m + n]. f l) = (\<Sum>l\<leftarrow>[0..<m]. f l) + (\<Sum>l\<leftarrow>[0..<n]. (f (m + l) :: real))"
proof -
  have "[0..<m + n] = [0..<m] @ [m..<m + n]" by (rule upt_add_eq_append) simp
  moreover have "map f [m..<m + n] = map (\<lambda>l. f (m + l)) [0..<n]"
  proof -
    have e: "[m..<m + n] = map (\<lambda>i. i + m) [0..<n]"
      unfolding map_add_upt by (simp add: add.commute)
    show ?thesis unfolding e by (simp add: o_def add.commute)
  qed
  ultimately show ?thesis by simp
qed

lemma sum_list_zero: "(\<Sum>l\<leftarrow>xs. (0::real)) = 0"
  by (induction xs) simp_all

lemma at3_zeros: "i < a \<Longrightarrow> j < b \<Longrightarrow> k < c \<Longrightarrow> at3 (zeros [a, b, c]) i j k = 0"
  using flat3_less[of i a j b k c] by (simp add: at3_def zeros_def)

lemma at3_blockdiag:
  assumes "i < sizes x ! 0 + sizes y ! 0" "j < sizes x ! 1" "k < sizes x ! 2 + sizes y ! 2"
  shows "at3 (blockdiag x y) i j k =
    (if k < sizes x ! 2
     then (if i < sizes x ! 0 then at3 x i j k else 0)
     else (if i < sizes x ! 0 then 0 else at3 y (i - sizes x ! 0) j (k - sizes x ! 2)))"
  unfolding blockdiag_def using assms by (rule at3_tabulate3)

lemma blockdiag_sizes [simp]:
  "sizes (blockdiag x y) = [sizes x ! 0 + sizes y ! 0, sizes x ! 1, sizes x ! 2 + sizes y ! 2]"
  by (simp add: blockdiag_def)

text \<open>A row that is two rows side by side, against a block-diagonal core.\<close>

lemma blockdiag_step:
  assumes j: "j < sizes x ! 1" and k: "k < sizes x ! 2 + sizes y ! 2"
  shows "(\<Sum>l\<leftarrow>[0..<sizes x ! 0 + sizes y ! 0].
            (if l < sizes x ! 0 then g1 l else g2 (l - sizes x ! 0)) * at3 (blockdiag x y) l j k)
       = (if k < sizes x ! 2 then \<Sum>l\<leftarrow>[0..<sizes x ! 0]. g1 l * at3 x l j k
          else \<Sum>l\<leftarrow>[0..<sizes y ! 0]. g2 l * at3 y l j (k - sizes x ! 2))"
proof -
  let ?r1 = "sizes x ! 0" and ?r2 = "sizes y ! 0"
  let ?f = "\<lambda>l. (if l < ?r1 then g1 l else g2 (l - ?r1)) * at3 (blockdiag x y) l j k"
  have left: "(\<Sum>l\<leftarrow>[0..<?r1]. ?f l)
              = (\<Sum>l\<leftarrow>[0..<?r1]. if k < sizes x ! 2 then g1 l * at3 x l j k else 0)"
    by (rule sum_list_cong_upt) (simp add: at3_blockdiag[OF _ j k])
  have right: "(\<Sum>l\<leftarrow>[0..<?r2]. ?f (?r1 + l))
              = (\<Sum>l\<leftarrow>[0..<?r2]. if k < sizes x ! 2 then 0 else g2 l * at3 y l j (k - sizes x ! 2))"
    by (rule sum_list_cong_upt) (simp add: at3_blockdiag[OF _ j k])
  show ?thesis
    unfolding sum_list_upt_add left right by (simp add: sum_list_zero)
qed

lemma dim3_sizes:
  assumes "dim c = 3"
  shows "sizes c = [sizes c ! 0, sizes c ! 1, sizes c ! 2]"
proof -
  from assms obtain a b d where "sizes c = [a, b, d]"
    by (auto simp add: dim_def length_Suc_conv numeral_3_eq_3)
  then show ?thesis by simp
qed

lemma free_sizes_Cons [simp]: "free_sizes (c # cs) = sizes c ! 1 # free_sizes cs"
  by (simp add: free_sizes_def)

lemma free_sizes_Nil [simp]: "free_sizes [] = []"
  by (simp add: free_sizes_def)

lemma chainf_cong:
  assumes "tt_chain r cs" "\<And>i l. i < p \<Longrightarrow> l < r \<Longrightarrow> g i l = h i l"
    and "n < p * prod_list (free_sizes cs)"
  shows "chainf g cs n 0 = chainf h cs n 0"
  using assms
proof (induction cs arbitrary: p r g h)
  case Nil
  then show ?case by simp
next
  case (Cons c cs)
  let ?b = "sizes c ! 1"
  let ?g' = "\<lambda>i k. \<Sum>l\<leftarrow>[0..<sizes c ! 0]. g (i div ?b) l * at3 c l (i mod ?b) k"
  let ?h' = "\<lambda>i k. \<Sum>l\<leftarrow>[0..<sizes c ! 0]. h (i div ?b) l * at3 c l (i mod ?b) k"
  from Cons.prems(1) have r: "sizes c ! 0 = r" and rest: "tt_chain (sizes c ! 2) cs" by simp_all
  have eq: "?g' i k = ?h' i k" if "i < p * ?b" "k < sizes c ! 2" for i k
  proof (rule sum_list_cong_upt)
    fix l assume "l < sizes c ! 0"
    then have l: "l < r" using r by simp
    have "i div ?b < p" using that(1) by (simp add: less_mult_imp_div_less)
    then show "g (i div ?b) l * at3 c l (i mod ?b) k = h (i div ?b) l * at3 c l (i mod ?b) k"
      using Cons.prems(2)[OF _ l] by simp
  qed
  have n: "n < p * ?b * prod_list (free_sizes cs)" using Cons.prems(3) by (simp add: mult.assoc)
  show ?case using Cons.IH[OF rest eq n] by simp
qed

lemma sum2_blockdiag:
  assumes "sizes x ! 2 = 1" "sizes y ! 2 = 1" "l < sizes x ! 0 + sizes y ! 0" "j < sizes x ! 1"
  shows "at3 (sum2_core (blockdiag x y)) l j 0
         = (if l < sizes x ! 0 then at3 x l j 0 else at3 y (l - sizes x ! 0) j 0)"
proof -
  have "at3 (sum2_core (blockdiag x y)) l j 0 = (\<Sum>c\<leftarrow>[0..<1 + 1]. at3 (blockdiag x y) l j c)"
    using assms by (simp add: sum2_core_def)
  also have "\<dots> = at3 (blockdiag x y) l j 0 + at3 (blockdiag x y) l j 1"
    unfolding sum_list_upt_add by simp
  also have "\<dots> = (if l < sizes x ! 0 then at3 x l j 0 else at3 y (l - sizes x ! 0) j 0)"
    using assms by (simp add: at3_blockdiag)
  finally show ?thesis .
qed

lemma sum0_blockdiag:
  assumes "sizes x ! 0 = 1" "sizes y ! 0 = 1" "j < sizes x ! 1" "k < sizes x ! 2 + sizes y ! 2"
  shows "at3 (sum0_core (blockdiag x y)) 0 j k
         = (if k < sizes x ! 2 then at3 x 0 j k else at3 y 0 j (k - sizes x ! 2))"
proof -
  have "at3 (sum0_core (blockdiag x y)) 0 j k = (\<Sum>a\<leftarrow>[0..<1 + 1]. at3 (blockdiag x y) a j k)"
    using assms by (simp add: sum0_core_def)
  also have "\<dots> = at3 (blockdiag x y) 0 j k + at3 (blockdiag x y) 1 j k"
    unfolding sum_list_upt_add by simp
  also have "\<dots> = (if k < sizes x ! 2 then at3 x 0 j k else at3 y 0 j (k - sizes x ! 2))"
    using assms by (simp add: at3_blockdiag)
  finally show ?thesis .
qed

lemma add_rest_chain:
  assumes "tt_chain r1 xs" "tt_chain r2 ys" "free_sizes xs = free_sizes ys" "xs \<noteq> []"
  shows "tt_chain (r1 + r2) (add_rest xs ys) \<and> free_sizes (add_rest xs ys) = free_sizes xs
    \<and> (\<forall>n < p * prod_list (free_sizes xs).
          chainf (\<lambda>i l. if l < r1 then g1 i l else g2 i (l - r1)) (add_rest xs ys) n 0
          = chainf g1 xs n 0 + chainf g2 ys n 0)"
  using assms
proof (induction xs arbitrary: ys r1 r2 g1 g2 p)
  case Nil
  then show ?case by simp
next
  case (Cons x xs)
  from Cons.prems(3) obtain y ys' where ys: "ys = y # ys'"
    by (cases ys) simp_all
  from Cons.prems(3) ys have b: "sizes y ! 1 = sizes x ! 1" and fr: "free_sizes xs = free_sizes ys'"
    by simp_all
  from Cons.prems(1) have x: "dim x = 3" "sizes x ! 0 = r1" "0 < sizes x ! 2"
    and xrest: "tt_chain (sizes x ! 2) xs" by simp_all
  from Cons.prems(2) ys have y: "dim y = 3" "sizes y ! 0 = r2" "0 < sizes y ! 2"
    and yrest: "tt_chain (sizes y ! 2) ys'" by simp_all
  let ?b = "sizes x ! 1"
  let ?G = "\<lambda>i l. if l < r1 then g1 i l else g2 i (l - r1)"
  let ?g1' = "\<lambda>i k. \<Sum>l\<leftarrow>[0..<sizes x ! 0]. g1 (i div ?b) l * at3 x l (i mod ?b) k"
  let ?g2' = "\<lambda>i k. \<Sum>l\<leftarrow>[0..<sizes y ! 0]. g2 (i div ?b) l * at3 y l (i mod ?b) k"
  show ?case
  proof (cases xs)
    case Nil
    then have ys': "ys' = []" using fr by (simp add: free_sizes_def)
    have x2: "sizes x ! 2 = 1" using xrest Nil by simp
    have y2: "sizes y ! 2 = 1" using yrest ys' by simp
    let ?S = "sum2_core (blockdiag x y)"
    have S: "sizes ?S = [r1 + r2, ?b, 1]" using x y by (simp add: sum2_core_def)
    have S0: "sizes ?S ! 0 = r1 + r2" and S1: "sizes ?S ! 1 = ?b" using S by simp_all
    have tt: "tt_chain (r1 + r2) [?S]" using S by (simp add: sum2_core_def)
    have val: "chainf ?G [?S] n 0 = chainf g1 [x] n 0 + chainf g2 [y] n 0" if n: "n < p * ?b" for n
    proof -
      from n have bpos: "0 < ?b" by (cases "?b") simp_all
      then have j: "n mod ?b < ?b" by simp
      have "chainf ?G [?S] n 0
            = (\<Sum>l\<leftarrow>[0..<r1 + r2]. ?G (n div ?b) l * at3 ?S l (n mod ?b) 0)"
        by (simp only: chainf.simps S0 S1)
      also have "\<dots> = (\<Sum>l\<leftarrow>[0..<r1 + r2]. ?G (n div ?b) l
            * (if l < r1 then at3 x l (n mod ?b) 0 else at3 y (l - r1) (n mod ?b) 0))"
        by (rule sum_list_cong_upt) (use sum2_blockdiag[OF x2 y2 _ j] x(2) y(2) in \<open>simp cong: if_cong\<close>)
      also have "\<dots> = (\<Sum>l\<leftarrow>[0..<r1]. g1 (n div ?b) l * at3 x l (n mod ?b) 0)
            + (\<Sum>l\<leftarrow>[0..<r2]. g2 (n div ?b) l * at3 y l (n mod ?b) 0)"
        unfolding sum_list_upt_add
        by (intro arg_cong2[where f = "(+)"] sum_list_cong_upt) simp_all
      also have "\<dots> = chainf g1 [x] n 0 + chainf g2 [y] n 0"
        using x(2) y(2) b by simp
      finally show ?thesis .
    qed
    show ?thesis using tt val S by (simp add: Nil ys ys' del: tt_chain.simps chainf.simps)
  next
    case (Cons x' xs')
    then have ne: "xs \<noteq> []" by simp
    from fr Cons obtain y' ys'' where ys': "ys' = y' # ys''" by (cases ys') simp_all
    let ?B = "blockdiag x y"
    have rest_eq: "add_rest (x # xs) (y # ys') = ?B # add_rest xs ys'"
      by (simp add: Cons ys')
    from Cons.IH[OF xrest yrest fr ne, of "p * ?b" ?g1' ?g2']
    have IH1: "tt_chain (sizes x ! 2 + sizes y ! 2) (add_rest xs ys')"
      and IH2: "free_sizes (add_rest xs ys') = free_sizes xs"
      and IH3: "\<And>n. n < p * ?b * prod_list (free_sizes xs) \<Longrightarrow>
          chainf (\<lambda>i l. if l < sizes x ! 2 then ?g1' i l else ?g2' i (l - sizes x ! 2)) (add_rest xs ys') n 0
          = chainf ?g1' xs n 0 + chainf ?g2' ys' n 0"
      by simp_all
    have tt: "tt_chain (r1 + r2) (?B # add_rest xs ys')"
      using IH1 x y by (simp add: blockdiag_def)
    have val: "chainf ?G (?B # add_rest xs ys') n 0 = chainf g1 (x # xs) n 0 + chainf g2 (y # ys') n 0"
      if n: "n < p * (?b * prod_list (free_sizes xs))" for n
    proof -
      let ?G' = "\<lambda>i k. \<Sum>l\<leftarrow>[0..<r1 + r2]. ?G (i div ?b) l * at3 ?B l (i mod ?b) k"
      have n': "n < p * ?b * prod_list (free_sizes (add_rest xs ys'))"
        using n by (simp add: IH2 mult.assoc)
      have step: "?G' i k = (if k < sizes x ! 2 then ?g1' i k else ?g2' i (k - sizes x ! 2))"
        if "i < p * ?b" "k < sizes x ! 2 + sizes y ! 2" for i k
      proof -
        from that(1) have bpos: "0 < ?b" by (cases "?b") simp_all
        then have j: "i mod ?b < ?b" by simp
        show ?thesis
          unfolding x(2)[symmetric] y(2)[symmetric] by (rule blockdiag_step[OF j that(2)])
      qed
      have "chainf ?G (?B # add_rest xs ys') n 0 = chainf ?G' (add_rest xs ys') n 0"
        using x(2) y(2) by (simp cong: if_cong)
      also have "\<dots> = chainf (\<lambda>i k. if k < sizes x ! 2 then ?g1' i k else ?g2' i (k - sizes x ! 2))
                          (add_rest xs ys') n 0"
        by (rule chainf_cong[OF IH1 step n'])
      also have "\<dots> = chainf ?g1' xs n 0 + chainf ?g2' ys' n 0"
        by (rule IH3) (use n in \<open>simp add: mult.assoc\<close>)
      also have "\<dots> = chainf g1 (x # xs) n 0 + chainf g2 (y # ys') n 0"
        using b by simp
      finally show ?thesis .
    qed
    show ?thesis
      unfolding ys rest_eq using tt val IH2
      by (simp del: tt_chain.simps chainf.simps add_rest.simps)
  qed
qed

lemma tt_entries_nth: "n < prod_list (free_sizes cs) \<Longrightarrow> tt_entries cs ! n = chainf (\<lambda>i k. 1) cs n 0"
  by (simp add: tt_entries_def)

lemma tt_entries_length [simp]: "length (tt_entries cs) = prod_list (free_sizes cs)"
  by (simp add: tt_entries_def)

lemma add_cores_tt:
  assumes t1: "tt_chain 1 xs" and t2: "tt_chain 1 ys" and fr: "free_sizes xs = free_sizes ys"
    and ne: "xs \<noteq> []"
  shows "tt_chain 1 (add_cores xs ys) \<and> free_sizes (add_cores xs ys) = free_sizes xs
    \<and> tt_entries (add_cores xs ys) = map2 (+) (tt_entries xs) (tt_entries ys)"
proof -
  from ne obtain x xs' where xs: "xs = x # xs'" by (cases xs) simp_all
  from fr xs obtain y ys' where ys: "ys = y # ys'" by (cases ys) simp_all
  from fr xs ys have b: "sizes y ! 1 = sizes x ! 1" and fr': "free_sizes xs' = free_sizes ys'"
    by simp_all
  from t1 xs have x: "dim x = 3" "sizes x ! 0 = 1" "0 < sizes x ! 2"
    "length (elems x) = sizes x ! 0 * sizes x ! 1 * sizes x ! 2"
    and xrest: "tt_chain (sizes x ! 2) xs'" by simp_all
  from t2 ys have y: "dim y = 3" "sizes y ! 0 = 1" "0 < sizes y ! 2"
    "length (elems y) = sizes y ! 0 * sizes y ! 1 * sizes y ! 2"
    and yrest: "tt_chain (sizes y ! 2) ys'" by simp_all
  let ?b = "sizes x ! 1"
  let ?P = "prod_list (free_sizes xs)"
  have val_imp: "tt_entries cs = map2 (+) (tt_entries xs) (tt_entries ys)"
    if "free_sizes cs = free_sizes xs"
      and "\<And>n. n < ?P \<Longrightarrow> chainf (\<lambda>i k. 1) cs n 0 = chainf (\<lambda>i k. 1) xs n 0 + chainf (\<lambda>i k. 1) ys n 0"
    for cs
  proof (rule nth_equalityI)
    show "length (tt_entries cs) = length (map2 (+) (tt_entries xs) (tt_entries ys))"
      using that(1) fr by simp
  next
    fix n assume "n < length (tt_entries cs)"
    then have n: "n < ?P" using that(1) by simp
    then show "tt_entries cs ! n = map2 (+) (tt_entries xs) (tt_entries ys) ! n"
      using that fr by (simp add: tt_entries_nth)
  qed
  show ?thesis
  proof (cases xs')
    case Nil
    then have ys': "ys' = []" using fr' by (simp add: free_sizes_def)
    have x2: "sizes x ! 2 = 1" using xrest Nil by simp
    have y2: "sizes y ! 2 = 1" using yrest ys' by simp
    have sx: "sizes x = [1, ?b, 1]" using dim3_sizes[OF x(1)] x(2) x2 by simp
    have sy: "sizes y = [1, ?b, 1]" using dim3_sizes[OF y(1)] y(2) y2 b by simp
    let ?z = "\<lparr>sizes = sizes x, elems = map2 (+) (elems x) (elems y)\<rparr>"
    have ac: "add_cores xs ys = [?z]" by (simp add: add_cores_def xs ys Nil)
    have lx: "length (elems x) = ?b" using x(4) x(2) x2 by simp
    have ly: "length (elems y) = ?b" using y(4) y(2) y2 b by simp
    have tt: "tt_chain 1 [?z]" using x(1) x(2) x2 lx ly by (simp add: dim_def)
    have fz: "free_sizes [?z] = free_sizes xs" by (simp add: xs Nil)
    have val: "chainf (\<lambda>i k. 1) [?z] n 0 = chainf (\<lambda>i k. 1) xs n 0 + chainf (\<lambda>i k. 1) ys n 0"
      if "n < ?P" for n
    proof -
      from that have n: "n < ?b" by (simp add: xs Nil)
      have one: "chainf (\<lambda>i k. 1) [c] n 0 = elems c ! n"
        if "sizes c ! 0 = 1" "sizes c ! 1 = ?b" "sizes c ! 2 = 1" for c
        using that n by (simp add: at3_def)
      have "chainf (\<lambda>i k. 1) [?z] n 0 = elems ?z ! n"
        by (rule one) (simp_all add: x(2) x2)
      also have "\<dots> = elems x ! n + elems y ! n" using n lx ly by simp
      also have "\<dots> = chainf (\<lambda>i k. 1) [x] n 0 + chainf (\<lambda>i k. 1) [y] n 0"
        using one[of x] one[of y] x(2) x2 y(2) y2 b by simp
      finally show ?thesis by (simp only: xs ys Nil ys')
    qed
    show ?thesis unfolding ac using tt fz val_imp[OF fz val] by simp
  next
    case (Cons x' xs'')
    then have ne': "xs' \<noteq> []" by simp
    have len: "length xs \<noteq> 1" using xs Cons by simp
    let ?S = "sum0_core (blockdiag x y)"
    have ac: "add_cores xs ys = ?S # add_rest xs' ys'"
      using len by (simp add: add_cores_def xs ys)
    let ?g1 = "\<lambda>i k. \<Sum>l\<leftarrow>[0..<sizes x ! 0]. 1 * at3 x l (i mod ?b) k"
    let ?g2 = "\<lambda>i k. \<Sum>l\<leftarrow>[0..<sizes y ! 0]. 1 * at3 y l (i mod ?b) k"
    from add_rest_chain[OF xrest yrest fr' ne', of ?b ?g1 ?g2]
    have R1: "tt_chain (sizes x ! 2 + sizes y ! 2) (add_rest xs' ys')"
      and R2: "free_sizes (add_rest xs' ys') = free_sizes xs'"
      and R3: "\<And>n. n < ?b * prod_list (free_sizes xs') \<Longrightarrow>
          chainf (\<lambda>i l. if l < sizes x ! 2 then ?g1 i l else ?g2 i (l - sizes x ! 2)) (add_rest xs' ys') n 0
          = chainf ?g1 xs' n 0 + chainf ?g2 ys' n 0"
      by simp_all
    have S: "sizes ?S = [1, ?b, sizes x ! 2 + sizes y ! 2]" by (simp add: sum0_core_def)
    have S0: "sizes ?S ! 0 = 1" and S1: "sizes ?S ! 1 = ?b" using S by simp_all
    have tt: "tt_chain 1 (?S # add_rest xs' ys')"
      using R1 S x(3) by (simp add: sum0_core_def)
    have fz: "free_sizes (?S # add_rest xs' ys') = free_sizes xs"
      using R2 S by (simp add: xs)
    have val: "chainf (\<lambda>i k. 1) (?S # add_rest xs' ys') n 0
               = chainf (\<lambda>i k. 1) xs n 0 + chainf (\<lambda>i k. 1) ys n 0"
      if n: "n < ?P" for n
    proof -
      let ?G' = "\<lambda>i k. \<Sum>l\<leftarrow>[0..<1]. 1 * at3 ?S l (i mod ?b) k"
      have n': "n < 1 * ?b * prod_list (free_sizes (add_rest xs' ys'))"
        using n by (simp add: R2 xs)
      have step: "?G' i k = (if k < sizes x ! 2 then ?g1 i k else ?g2 i (k - sizes x ! 2))"
        if "i < 1 * ?b" "k < sizes x ! 2 + sizes y ! 2" for i k
        using that sum0_blockdiag[OF x(2) y(2), of i k] x(2) y(2) by simp
      have "chainf (\<lambda>i k. 1) (?S # add_rest xs' ys') n 0 = chainf ?G' (add_rest xs' ys') n 0"
        by (simp only: chainf.simps S0 S1)
      also have "\<dots> = chainf (\<lambda>i k. if k < sizes x ! 2 then ?g1 i k else ?g2 i (k - sizes x ! 2))
                          (add_rest xs' ys') n 0"
        by (rule chainf_cong[OF R1 step n'])
      also have "\<dots> = chainf ?g1 xs' n 0 + chainf ?g2 ys' n 0"
        by (rule R3) (use n in \<open>simp add: xs\<close>)
      also have "\<dots> = chainf (\<lambda>i k. 1) xs n 0 + chainf (\<lambda>i k. 1) ys n 0"
        by (simp only: xs ys chainf.simps b)
      finally show ?thesis .
    qed
    show ?thesis unfolding ac using tt fz val_imp[OF fz val] by simp
  qed
qed

lemma map_e_Inr: "(\<And>x. x \<in> set xs \<Longrightarrow> f x = Inr (g x)) \<Longrightarrow> map_e f xs = Inr (map g xs)"
  by (induction xs) simp_all

lemma map2_nth:
  "length xs = length ys \<Longrightarrow> map (\<lambda>n. f (xs ! n) (ys ! n)) [0..<length xs] = map2 f xs ys"
  by (rule nth_equalityI) simp_all

lemma add_mode_tt:
  assumes x: "dim x = 3" and y: "dim y = 3" and bx: "sizes x ! 1 = sn" and "sizes y ! 1 = sn"
  shows "add_mode sn x None y None = Inr (blockdiag x y, None)"
proof -
  let ?a1 = "sizes x ! 0" and ?a2 = "sizes y ! 0" and ?c1 = "sizes x ! 2" and ?c2 = "sizes y ! 2"
  let ?col1 = "tabulate3 (?a1 + ?a2) sn ?c1 (\<lambda>i j k. if i < ?a1 then at3 x i j k else 0)"
  let ?col2 = "tabulate3 (?a1 + ?a2) sn ?c2 (\<lambda>i j k. if i < ?a1 then 0 else at3 y (i - ?a1) j k)"
  have g: "shp x 0 = Inr ?a1" "shp x 2 = Inr ?c1" "shp y 0 = Inr ?a2" "shp y 2 = Inr ?c2"
    using x y by (simp_all add: shp_def py_get_def dim_def)
  have z: "dim (zeros [a, b, c]) = 3" "sizes (zeros [a, b, c]) = [a, b, c]" for a b c
    by (simp_all add: zeros_def dim_def)
  have "tabulate3 (?a1 + ?a2) sn ?c1
          (\<lambda>i j k. if i < ?a1 then at3 x i j k else at3 (zeros [?a2, sn, ?c1]) (i - ?a1) j k) = ?col1"
    by (rule tabulate3_cong) (simp add: at3_zeros)
  then have c1: "cat_dim0 x (zeros [?a2, sn, ?c1]) = Inr ?col1"
    using x bx by (simp add: cat_dim0_def z cong: if_cong)
  have "tabulate3 (?a1 + ?a2) sn ?c2
          (\<lambda>i j k. if i < ?a1 then at3 (zeros [?a1, sn, ?c2]) i j k else at3 y (i - ?a1) j k) = ?col2"
    by (rule tabulate3_cong) (simp add: at3_zeros)
  then have c2: "cat_dim0 (zeros [?a1, sn, ?c2]) y = Inr ?col2"
    using y assms(4) by (simp add: cat_dim0_def z cong: if_cong)
  have "tabulate3 (?a1 + ?a2) sn (?c1 + ?c2)
          (\<lambda>i j k. if k < ?c1 then at3 ?col1 i j k else at3 ?col2 i j (k - ?c1)) = blockdiag x y"
    unfolding blockdiag_def bx by (rule tabulate3_cong) auto
  then have c3: "cat_dim2 ?col1 ?col2 = Inr (blockdiag x y)"
    by (simp add: cat_dim2_def cong: if_cong)
  show ?thesis
    by (simp add: add_mode_def g c1 c2 c3)
qed

lemma add_rest_eq:
  "length xs = length ys \<Longrightarrow> xs \<noteq> [] \<Longrightarrow>
   (map2 blockdiag xs ys)[length xs - 1 := sum2_core (last (map2 blockdiag xs ys))] = add_rest xs ys"
proof (induction xs ys rule: list_induct2)
  case Nil
  then show ?case by simp
next
  case (Cons x xs y ys)
  show ?case
  proof (cases xs)
    case Nil
    then show ?thesis using Cons.hyps by simp
  next
    case (Cons x' xs')
    then obtain y' ys' where ys: "ys = y' # ys'" using Cons.hyps by (cases ys) simp_all
    have ne: "xs \<noteq> []" using Cons by simp
    have "add_rest (x # xs) (y # ys) = blockdiag x y # add_rest xs ys"
      by (simp add: Cons ys)
    then show ?thesis using Cons.IH[OF ne] ne by (simp add: Cons ys)
  qed
qed

lemma sum_dim0_tabulate: "dim x = 3 \<Longrightarrow> sum_dim0 x = Inr (sum0_core x)"
  by (simp add: sum_dim0_def sum0_core_def)

lemma sum_dim2_tabulate: "dim x = 3 \<Longrightarrow> sum_dim2 x = Inr (sum2_core x)"
  by (simp add: sum_dim2_def sum2_core_def)

lemma blockdiag_dim [simp]: "dim (blockdiag x y) = 3"
  by (simp add: blockdiag_def)

lemma tt_chain_nth_dim: "tt_chain r cs \<Longrightarrow> n < length cs \<Longrightarrow> dim (cs ! n) = 3"
  using tt_chain_dims[of r cs] by (simp add: list_all_length)

lemma add_rest_length: "length xs = length ys \<Longrightarrow> length (add_rest xs ys) = length xs"
  by (induction xs ys rule: add_rest.induct) simp_all

lemma free_sizes_length [simp]: "length (free_sizes cs) = length cs"
  by (simp add: free_sizes_def)

lemma free_sizes_nth: "n < length cs \<Longrightarrow> free_sizes cs ! n = sizes (cs ! n) ! 1"
  by (simp add: free_sizes_def)

lemma shape_tt:
  "tt_chain r cs \<Longrightarrow> shape \<lparr>cores = cs, Us = replicate (length cs) None, idxs = ix\<rparr> = Inr (free_sizes cs)"
  by (simp add: shape_def shape_from_no_factors[OF tt_chain_dims] free_sizes_def)

text \<open>\<^verbatim>\<open>__add__\<close> on two networks in tensor-train form of one shape.\<close>

lemma add_nets_tt:
  assumes t1: "tt_chain 1 xs" and t2: "tt_chain 1 ys" and fr: "free_sizes xs = free_sizes ys"
    and ne: "xs \<noteq> []"
  shows "add_nets \<lparr>cores = xs, Us = replicate (length xs) None, idxs = ix\<rparr>
                  \<lparr>cores = ys, Us = replicate (length ys) None, idxs = iy\<rparr>
         = Inr \<lparr>cores = add_cores xs ys, Us = replicate (length xs) None,
                idxs = map arange (free_sizes xs)\<rparr>"
proof -
  let ?s = "\<lparr>cores = xs, Us = replicate (length xs) None, idxs = ix\<rparr>"
  let ?t = "\<lparr>cores = ys, Us = replicate (length ys) None, idxs = iy\<rparr>"
  let ?sh = "free_sizes xs"
  let ?N = "length xs"
  have len: "length ys = ?N" using arg_cong[OF fr, of length] by simp
  from add_cores_tt[OF t1 t2 fr ne]
  have A1: "tt_chain 1 (add_cores xs ys)" and A2: "free_sizes (add_cores xs ys) = ?sh" by simp_all
  have A3: "length (add_cores xs ys) = ?N" using arg_cong[OF A2, of length] by simp
  from ne obtain x xs' where xs: "xs = x # xs'" by (cases xs) simp_all
  from len xs obtain y ys' where ys: "ys = y # ys'" by (cases ys) simp_all
  have len': "length xs' = length ys'" using len xs ys by simp
  have dx: "dim x = 3" and dy: "dim y = 3" using t1 t2 xs ys by simp_all
  show ?thesis
  proof (cases "?N = 1")
    case True
    then have xs': "xs' = []" and ys': "ys' = []" using xs ys len by simp_all
    have x: "sizes x ! 0 = 1" "sizes x ! 2 = 1" using t1 xs xs' by simp_all
    have y: "sizes y ! 0 = 1" "sizes y ! 2 = 1" using t2 ys ys' by simp_all
    have b: "sizes y ! 1 = sizes x ! 1" using fr xs ys by simp
    have sxy: "sizes x = sizes y"
      using dim3_sizes[OF dx] dim3_sizes[OF dy] x y b by simp
    let ?z = "\<lparr>sizes = sizes x, elems = map2 (+) (elems x) (elems y)\<rparr>"
    have ac: "add_cores xs ys = [?z]" by (simp add: add_cores_def xs ys xs')
    have ft1: "full_tucker ?s = Inr ?s"
      by (rule full_tucker_no_factors[OF tt_chain_dims[OF t1] tt_chain_ranks_match[OF t1]])
    have ft2: "full_tucker ?t = Inr ?t"
      by (rule full_tucker_no_factors[OF tt_chain_dims[OF t2] tt_chain_ranks_match[OF t2]])
    have az: "add_arr x y = Inr ?z" using sxy by (simp add: add_arr_def)
    have tz: "Tensor_of_cores [?z] None None
              = Inr \<lparr>cores = [?z], Us = replicate (length [?z]) None, idxs = map arange (free_sizes [?z])\<rparr>"
      by (rule Tensor_of_cores_tt(2)) (use A1 ac in simp)
    have nd: "ndim ?s = 1" using True by (simp add: ndim_def)
    have g1: "py_get (cores ?s) 0 = Inr x" by (simp add: xs py_get_def)
    have g2: "py_get (cores ?t) 0 = Inr y" by (simp add: ys py_get_def)
    have "add_nets ?s ?t = Tensor_of_cores [?z] None None"
      by (simp only: add_nets_def shape_tt[OF t1] shape_tt[OF t2] fr bind_e_simps nd ft1 ft2
          g1 g2 az if_True if_False simp_thms)
    moreover have "length [?z] = ?N" using True by simp
    moreover have "free_sizes [?z] = ?sh" using A2 ac by simp
    ultimately show ?thesis by (simp only: tz ac)
  next
    case False
    then have ne': "xs' \<noteq> []" using xs by simp
    then have ne'': "ys' \<noteq> []" using len' by auto
    have mode: "add_mode_at ?s ?t ?sh n = Inr (blockdiag (xs ! n) (ys ! n), None)"
      if "n \<in> set [0..<?N]" for n
    proof -
      from that have n: "n < ?N" by simp
      have "add_mode (?sh ! n) (xs ! n) None (ys ! n) None = Inr (blockdiag (xs ! n) (ys ! n), None)"
      proof (rule add_mode_tt)
        show "dim (xs ! n) = 3" by (rule tt_chain_nth_dim[OF t1 n])
        show "dim (ys ! n) = 3" by (rule tt_chain_nth_dim[OF t2]) (simp add: len n)
        show "sizes (xs ! n) ! 1 = ?sh ! n" by (simp add: free_sizes_nth n)
        show "sizes (ys ! n) ! 1 = ?sh ! n" unfolding fr by (simp add: free_sizes_nth n len)
      qed
      then show ?thesis using n len by (simp add: add_mode_at_def py_get_def)
    qed
    let ?cus = "map (\<lambda>n. (blockdiag (xs ! n) (ys ! n), None::arr option)) [0..<?N]"
    have me: "map_e (add_mode_at ?s ?t ?sh) [0..<?N] = Inr ?cus"
      by (rule map_e_Inr) (rule mode)
    have cs: "map fst ?cus = blockdiag x y # map2 blockdiag xs' ys'"
    proof -
      have "map fst ?cus = map (\<lambda>n. blockdiag (xs ! n) (ys ! n)) [0..<?N]" by (simp add: o_def)
      also have "\<dots> = map2 blockdiag xs ys" by (rule map2_nth) (simp add: len)
      finally show ?thesis by (simp add: xs ys)
    qed
    have us: "map snd ?cus = replicate ?N None"
      by (simp add: o_def map_replicate_const)
    let ?ms = "map2 blockdiag xs' ys'"
    have ms_ne: "?ms \<noteq> []" using ne' ne'' by (cases xs'; cases ys') simp_all
    have "last ?ms \<in> set ?ms" using ms_ne by (rule last_in_set)
    then have dl: "dim (last ?ms) = 3" by (auto simp add: in_set_zip)
    have lm: "length ?ms = length xs'" using len' by simp
    have upd: "(sum0_core (blockdiag x y) # ?ms)[length xs' := sum2_core (last ?ms)]
               = add_cores xs ys"
    proof -
      from ne' obtain k where k: "length xs' = Suc k" by (cases xs') simp_all
      have "?ms[k := sum2_core (last ?ms)] = add_rest xs' ys'"
        using add_rest_eq[OF len' ne'] k by simp
      then show ?thesis using False by (simp add: k add_cores_def xs ys)
    qed
    have tz: "Tensor_of_cores (add_cores xs ys) (Some (replicate ?N None)) None
              = Inr \<lparr>cores = add_cores xs ys, Us = replicate ?N None, idxs = map arange ?sh\<rparr>"
      using Tensor_of_cores_tt(1)[OF A1] by (simp add: A2 A3)
    let ?S = "sum0_core (blockdiag x y)"
    have nd: "ndim ?s = ?N" by (simp add: ndim_def)
    have g0: "py_get (blockdiag x y # ?ms) 0 = Inr (blockdiag x y)" by (simp add: py_get_def)
    have s0: "sum_dim0 (blockdiag x y) = Inr ?S" by (simp add: sum_dim0_tabulate)
    have u0: "(blockdiag x y # ?ms)[0 := ?S] = ?S # ?ms" by simp
    have la: "last (?S # ?ms) = last ?ms" using ms_ne by simp
    have s2: "sum_dim2 (last ?ms) = Inr (sum2_core (last ?ms))" by (rule sum_dim2_tabulate[OF dl])
    have ll: "length (?S # ?ms) - 1 = length xs'" using lm by simp
    have "add_nets ?s ?t = Tensor_of_cores (add_cores xs ys) (Some (replicate ?N None)) None"
      by (simp only: add_nets_def shape_tt[OF t1] shape_tt[OF t2] fr[symmetric] bind_e_simps nd False
          if_False simp_thms me Let_def cs us g0 s0 u0 la s2 ll upd)
    then show ?thesis by (simp only: tz)
  qed
qed

section \<open>Multiplication of networks in tensor-train form\<close>

lemma sum_list_kron:
  "(\<Sum>l\<leftarrow>[0..<m * n]. f (l div n) * h (l mod n))
   = (\<Sum>a\<leftarrow>[0..<m]. f a) * (\<Sum>b\<leftarrow>[0..<n]. (h b :: real))"
proof (induction m)
  case 0
  then show ?case by simp
next
  case (Suc m)
  have e: "Suc m * n = m * n + n" by simp
  have "(\<Sum>l\<leftarrow>[0..<m * n + n]. f (l div n) * h (l mod n))
        = (\<Sum>l\<leftarrow>[0..<m * n]. f (l div n) * h (l mod n))
          + (\<Sum>l\<leftarrow>[0..<n]. f ((m * n + l) div n) * h ((m * n + l) mod n))"
    by (rule sum_list_upt_add)
  also have "(\<Sum>l\<leftarrow>[0..<n]. f ((m * n + l) div n) * h ((m * n + l) mod n))
             = (\<Sum>l\<leftarrow>[0..<n]. f m * h l)"
    by (rule sum_list_cong_upt) simp
  also have "\<dots> = f m * (\<Sum>l\<leftarrow>[0..<n]. h l)" by (rule sum_list_const_mult)
  also have "(\<Sum>l\<leftarrow>[0..<m * n]. f (l div n) * h (l mod n))
             = (\<Sum>a\<leftarrow>[0..<m]. f a) * (\<Sum>b\<leftarrow>[0..<n]. h b)" by (rule Suc.IH)
  finally have "(\<Sum>l\<leftarrow>[0..<m * n + n]. f (l div n) * h (l mod n))
        = ((\<Sum>a\<leftarrow>[0..<m]. f a) + f m) * (\<Sum>b\<leftarrow>[0..<n]. h b)"
    by (simp only: distrib_right)
  then show ?case unfolding e by simp
qed

lemma kron_step:
  "(\<Sum>l\<leftarrow>[0..<r1 * r2]. (g1 (l div r2) * g2 (l mod r2)) * (a (l div r2) * b (l mod r2)))
   = (\<Sum>l\<leftarrow>[0..<r1]. g1 l * a l) * (\<Sum>l\<leftarrow>[0..<r2]. g2 l * (b l :: real))"
proof -
  have "(\<Sum>l\<leftarrow>[0..<r1 * r2]. (g1 (l div r2) * g2 (l mod r2)) * (a (l div r2) * b (l mod r2)))
        = (\<Sum>l\<leftarrow>[0..<r1 * r2]. (g1 (l div r2) * a (l div r2)) * (g2 (l mod r2) * b (l mod r2)))"
    by (rule sum_list_cong_upt) (simp add: algebra_simps)
  also have "\<dots> = (\<Sum>l\<leftarrow>[0..<r1]. g1 l * a l) * (\<Sum>l\<leftarrow>[0..<r2]. g2 l * b l)"
    by (rule sum_list_kron[of "\<lambda>l. g1 l * a l" r2 "\<lambda>l. g2 l * b l" r1])
  finally show ?thesis .
qed

lemma kron_core_sizes [simp]:
  "sizes (kron_core x y) = [sizes x ! 0 * sizes y ! 0, sizes x ! 1, sizes x ! 2 * sizes y ! 2]"
  by (simp add: kron_core_def)

lemma at3_kron_core:
  assumes "l < sizes x ! 0 * sizes y ! 0" "j < sizes x ! 1" "k < sizes x ! 2 * sizes y ! 2"
  shows "at3 (kron_core x y) l j k
         = at3 x (l div sizes y ! 0) j (k div sizes y ! 2) * at3 y (l mod sizes y ! 0) j (k mod sizes y ! 2)"
  unfolding kron_core_def using assms by (rule at3_tabulate3)

lemma mul_chain:
  assumes "tt_chain r1 xs" "tt_chain r2 ys" "free_sizes xs = free_sizes ys"
  shows "tt_chain (r1 * r2) (map2 kron_core xs ys)
    \<and> free_sizes (map2 kron_core xs ys) = free_sizes xs
    \<and> (\<forall>n < p * prod_list (free_sizes xs).
          chainf (\<lambda>i l. g1 i (l div r2) * g2 i (l mod r2)) (map2 kron_core xs ys) n 0
          = chainf g1 xs n 0 * chainf g2 ys n 0)"
  using assms
proof (induction xs arbitrary: ys r1 r2 g1 g2 p)
  case Nil
  then have "ys = []" by (simp add: free_sizes_def)
  then show ?case using Nil by simp
next
  case (Cons x xs)
  from Cons.prems(3) obtain y ys' where ys: "ys = y # ys'"
    by (cases ys) simp_all
  from Cons.prems(3) ys have b: "sizes y ! 1 = sizes x ! 1" and fr: "free_sizes xs = free_sizes ys'"
    by simp_all
  from Cons.prems(1) have x: "dim x = 3" "sizes x ! 0 = r1" "0 < sizes x ! 2"
    and xrest: "tt_chain (sizes x ! 2) xs" by simp_all
  from Cons.prems(2) ys have y: "dim y = 3" "sizes y ! 0 = r2" "0 < sizes y ! 2"
    and yrest: "tt_chain (sizes y ! 2) ys'" by simp_all
  let ?b = "sizes x ! 1"
  let ?K = "kron_core x y"
  let ?G = "\<lambda>i l. g1 i (l div r2) * g2 i (l mod r2)"
  let ?g1' = "\<lambda>i k. \<Sum>l\<leftarrow>[0..<sizes x ! 0]. g1 (i div ?b) l * at3 x l (i mod ?b) k"
  let ?g2' = "\<lambda>i k. \<Sum>l\<leftarrow>[0..<sizes y ! 0]. g2 (i div ?b) l * at3 y l (i mod ?b) k"
  let ?rest = "map2 kron_core xs ys'"
  from Cons.IH[OF xrest yrest fr, of "p * ?b" ?g1' ?g2']
  have IH1: "tt_chain (sizes x ! 2 * sizes y ! 2) ?rest"
    and IH2: "free_sizes ?rest = free_sizes xs"
    and IH3: "\<And>n. n < p * ?b * prod_list (free_sizes xs) \<Longrightarrow>
        chainf (\<lambda>i l. ?g1' i (l div sizes y ! 2) * ?g2' i (l mod sizes y ! 2)) ?rest n 0
        = chainf ?g1' xs n 0 * chainf ?g2' ys' n 0"
    by simp_all
  have K0: "sizes ?K ! 0 = r1 * r2" and K1: "sizes ?K ! 1 = ?b" using x(2) y(2) by simp_all
  have tt: "tt_chain (r1 * r2) (?K # ?rest)"
    using IH1 x y by (simp add: kron_core_def)
  have val: "chainf ?G (?K # ?rest) n 0 = chainf g1 (x # xs) n 0 * chainf g2 (y # ys') n 0"
    if n: "n < p * (?b * prod_list (free_sizes xs))" for n
  proof -
    let ?G' = "\<lambda>i k. \<Sum>l\<leftarrow>[0..<r1 * r2]. ?G (i div ?b) l * at3 ?K l (i mod ?b) k"
    have n': "n < p * ?b * prod_list (free_sizes ?rest)"
      using n by (simp add: IH2 mult.assoc)
    have step: "?G' i k = ?g1' i (k div sizes y ! 2) * ?g2' i (k mod sizes y ! 2)"
      if "i < p * ?b" "k < sizes x ! 2 * sizes y ! 2" for i k
    proof -
      from that(1) have bpos: "0 < ?b" by (cases "?b") simp_all
      then have j: "i mod ?b < ?b" by simp
      have "?G' i k = (\<Sum>l\<leftarrow>[0..<r1 * r2]. ?G (i div ?b) l
              * (at3 x (l div r2) (i mod ?b) (k div sizes y ! 2)
                 * at3 y (l mod r2) (i mod ?b) (k mod sizes y ! 2)))"
        by (rule sum_list_cong_upt) (use at3_kron_core[OF _ j that(2)] x(2) y(2) in simp)
      also have "\<dots> = (\<Sum>l\<leftarrow>[0..<r1]. g1 (i div ?b) l * at3 x l (i mod ?b) (k div sizes y ! 2))
            * (\<Sum>l\<leftarrow>[0..<r2]. g2 (i div ?b) l * at3 y l (i mod ?b) (k mod sizes y ! 2))"
        by (rule kron_step)
      finally show ?thesis by (simp only: x(2) y(2))
    qed
    have "chainf ?G (?K # ?rest) n 0 = chainf ?G' ?rest n 0"
      by (simp only: chainf.simps K0 K1)
    also have "\<dots> = chainf (\<lambda>i k. ?g1' i (k div sizes y ! 2) * ?g2' i (k mod sizes y ! 2)) ?rest n 0"
      by (rule chainf_cong[OF IH1 step n'])
    also have "\<dots> = chainf ?g1' xs n 0 * chainf ?g2' ys' n 0"
      by (rule IH3) (use n in \<open>simp add: mult.assoc\<close>)
    also have "\<dots> = chainf g1 (x # xs) n 0 * chainf g2 (y # ys') n 0"
      using b by simp
    finally show ?thesis .
  qed
  show ?case
    unfolding ys using tt val IH2
    by (simp del: tt_chain.simps chainf.simps)
qed

lemma mul_mode_tt:
  assumes "dim x = 3" "dim y = 3" "sizes x ! 1 = sizes y ! 1"
  shows "mul_mode sn x None y None = Inr (kron_core x y, None)"
  using assms by (simp add: mul_mode_def core_kron_def)

lemma mul_entries:
  assumes t1: "tt_chain 1 xs" and t2: "tt_chain 1 ys" and fr: "free_sizes xs = free_sizes ys"
  shows "tt_chain 1 (map2 kron_core xs ys)" and "free_sizes (map2 kron_core xs ys) = free_sizes xs"
    and "tt_entries (map2 kron_core xs ys) = map2 (*) (tt_entries xs) (tt_entries ys)"
proof -
  let ?K = "map2 kron_core xs ys"
  from mul_chain[OF t1 t2 fr, of 1 "\<lambda>i k. 1" "\<lambda>i k. 1"]
  have M1: "tt_chain 1 ?K" and M2: "free_sizes ?K = free_sizes xs"
    and M3: "\<And>n. n < prod_list (free_sizes xs) \<Longrightarrow>
       chainf (\<lambda>i k. 1) ?K n 0 = chainf (\<lambda>i k. 1) xs n 0 * chainf (\<lambda>i k. 1) ys n 0"
    by simp_all
  show "tt_chain 1 ?K" by (rule M1)
  show "free_sizes ?K = free_sizes xs" by (rule M2)
  show "tt_entries ?K = map2 (*) (tt_entries xs) (tt_entries ys)"
  proof (rule nth_equalityI)
    show "length (tt_entries ?K) = length (map2 (*) (tt_entries xs) (tt_entries ys))"
      using M2 fr by simp
  next
    fix n assume "n < length (tt_entries ?K)"
    then have n: "n < prod_list (free_sizes xs)" using M2 by simp
    then show "tt_entries ?K ! n = map2 (*) (tt_entries xs) (tt_entries ys) ! n"
      using M2 M3[OF n] fr by (simp add: tt_entries_nth)
  qed
qed

text \<open>\<^verbatim>\<open>__mul__\<close> on two networks in tensor-train form of one shape.\<close>

lemma mul_tt:
  assumes t1: "tt_chain 1 xs" and t2: "tt_chain 1 ys" and fr: "free_sizes xs = free_sizes ys"
  shows "mul \<lparr>cores = xs, Us = replicate (length xs) None, idxs = ix\<rparr>
             (Net \<lparr>cores = ys, Us = replicate (length ys) None, idxs = iy\<rparr>)
         = Inr \<lparr>cores = map2 kron_core xs ys, Us = replicate (length xs) None,
                idxs = map arange (free_sizes xs)\<rparr>"
proof -
  let ?s = "\<lparr>cores = xs, Us = replicate (length xs) None, idxs = ix\<rparr>"
  let ?t = "\<lparr>cores = ys, Us = replicate (length ys) None, idxs = iy\<rparr>"
  let ?sh = "free_sizes xs"
  let ?N = "length xs"
  let ?K = "map2 kron_core xs ys"
  have len: "length ys = ?N" using arg_cong[OF fr, of length] by simp
  note M = mul_entries[OF t1 t2 fr]
  have lk: "length ?K = ?N" using len by simp
  have mode: "mul_mode_at ?s ?t ?sh n = Inr (kron_core (xs ! n) (ys ! n), None)"
    if "n \<in> set [0..<?N]" for n
  proof -
    from that have n: "n < ?N" by simp
    have "mul_mode (?sh ! n) (xs ! n) None (ys ! n) None = Inr (kron_core (xs ! n) (ys ! n), None)"
    proof (rule mul_mode_tt)
      show "dim (xs ! n) = 3" by (rule tt_chain_nth_dim[OF t1 n])
      show "dim (ys ! n) = 3" by (rule tt_chain_nth_dim[OF t2]) (simp add: len n)
      show "sizes (xs ! n) ! 1 = sizes (ys ! n) ! 1"
        using arg_cong[OF fr, of "\<lambda>l. l ! n"] n len by (simp add: free_sizes_nth)
    qed
    then show ?thesis using n len by (simp add: mul_mode_at_def py_get_def)
  qed
  let ?cus = "map (\<lambda>n. (kron_core (xs ! n) (ys ! n), None::arr option)) [0..<?N]"
  have me: "map_e (mul_mode_at ?s ?t ?sh) [0..<?N] = Inr ?cus"
    by (rule map_e_Inr) (rule mode)
  have cs: "map fst ?cus = ?K"
  proof -
    have "map fst ?cus = map (\<lambda>n. kron_core (xs ! n) (ys ! n)) [0..<?N]" by (simp add: o_def)
    also have "\<dots> = ?K" by (rule map2_nth) (simp add: len)
    finally show ?thesis .
  qed
  have us: "map snd ?cus = replicate ?N None"
    by (simp add: o_def map_replicate_const)
  have nd: "ndim ?s = ?N" by (simp add: ndim_def)
  have tz: "Tensor_of_cores ?K (Some (replicate ?N None)) None
            = Inr \<lparr>cores = ?K, Us = replicate ?N None, idxs = map arange ?sh\<rparr>"
    using Tensor_of_cores_tt(1)[OF M(1)] by (simp only: lk M(2))
  show ?thesis
    by (simp only: mul_def operand.case shape_tt[OF t1] shape_tt[OF t2] fr[symmetric] bind_e_simps
        nd if_False simp_thms me cs us tz)
qed

lemma shape_mismatch:
  assumes "shape p = Inr sp" "shape q = Inr sq" "sp \<noteq> sq"
  shows "add p (Net q) = Inl ValueError" and "mul p (Net q) = Inl ValueError"
  using assms by (simp_all add: add_def add_nets_def mul_def)

lemma dense_entries:
  assumes "tt_chain 1 cs" "full \<lparr>cores = cs, Us = replicate (length cs) None, idxs = ix\<rparr> = Inr a"
  shows "tt_entries cs = elems a" and "free_sizes cs = sizes a"
  using assms(2) unfolding full_tt[OF assms(1)] by auto

section \<open>Arithmetic on networks built from dense arrays\<close>

text \<open>
  Claim C3, as the code has it. For two dense arrays of one shape, with at least one axis and
  no axis of length zero, the constructor accepts both; \<^verbatim>\<open>full\<close> of the sum of the two
  networks is the entrywise sum of the arrays, and \<^verbatim>\<open>full\<close> of their product is the
  entrywise product. For two networks whose shapes differ, \<^verbatim>\<open>+\<close> and \<^verbatim>\<open>*\<close> raise
  \<^verbatim>\<open>ValueError\<close>.
\<close>

theorem C3_arithmetic:
  assumes "sizes a \<noteq> []" and "\<forall>s\<in>set (sizes a). 0 < s"
    and "length (elems a) = prod_list (sizes a)"
    and "sizes b = sizes a" and "length (elems b) = prod_list (sizes b)"
  shows "(\<exists>s t u v. Tensor_of_dense a = Inr s \<and> Tensor_of_dense b = Inr t
            \<and> add s (Net t) = Inr u
            \<and> full u = Inr \<lparr>sizes = sizes a, elems = map2 (+) (elems a) (elems b)\<rparr>
            \<and> mul s (Net t) = Inr v
            \<and> full v = Inr \<lparr>sizes = sizes a, elems = map2 (*) (elems a) (elems b)\<rparr>)
         \<and> (shape p = Inr sp \<and> shape q = Inr sq \<and> sp \<noteq> sq
              \<longrightarrow> add p (Net q) = Inl ValueError \<and> mul p (Net q) = Inl ValueError)"
proof
  from Tensor_of_dense_tt[OF assms(1-3)] obtain xs where
    s: "Tensor_of_dense a = Inr \<lparr>cores = xs, Us = replicate (length xs) None, idxs = map arange (sizes a)\<rparr>"
    and t1: "tt_chain 1 xs" and f1: "free_sizes xs = sizes a"
    and fa: "full \<lparr>cores = xs, Us = replicate (length xs) None, idxs = map arange (sizes a)\<rparr> = Inr a"
    by blast
  have nb: "sizes b \<noteq> []" and pb: "\<forall>s\<in>set (sizes b). 0 < s" using assms by simp_all
  from Tensor_of_dense_tt[OF nb pb assms(5)] obtain ys where
    t: "Tensor_of_dense b = Inr \<lparr>cores = ys, Us = replicate (length ys) None, idxs = map arange (sizes b)\<rparr>"
    and t2: "tt_chain 1 ys" and f2: "free_sizes ys = sizes b"
    and fb: "full \<lparr>cores = ys, Us = replicate (length ys) None, idxs = map arange (sizes b)\<rparr> = Inr b"
    by blast
  let ?s = "\<lparr>cores = xs, Us = replicate (length xs) None, idxs = map arange (sizes a)\<rparr>"
  let ?t = "\<lparr>cores = ys, Us = replicate (length ys) None, idxs = map arange (sizes b)\<rparr>"
  have fr: "free_sizes xs = free_sizes ys" using f1 f2 assms(4) by simp
  have ne: "xs \<noteq> []" using f1 assms(1) by (auto simp add: free_sizes_def)
  have ea: "tt_entries xs = elems a" by (rule dense_entries(1)[OF t1 fa])
  have eb: "tt_entries ys = elems b" by (rule dense_entries(1)[OF t2 fb])
  let ?u = "\<lparr>cores = add_cores xs ys, Us = replicate (length xs) None, idxs = map arange (free_sizes xs)\<rparr>"
  let ?v = "\<lparr>cores = map2 kron_core xs ys, Us = replicate (length xs) None, idxs = map arange (free_sizes xs)\<rparr>"
  have au: "add ?s (Net ?t) = Inr ?u"
    using add_nets_tt[OF t1 t2 fr ne] by (simp add: add_def)
  have mv: "mul ?s (Net ?t) = Inr ?v" by (rule mul_tt[OF t1 t2 fr])
  from add_cores_tt[OF t1 t2 fr ne]
  have A1: "tt_chain 1 (add_cores xs ys)" and A2: "free_sizes (add_cores xs ys) = free_sizes xs"
    and A3: "tt_entries (add_cores xs ys) = map2 (+) (tt_entries xs) (tt_entries ys)" by simp_all
  have lu: "length (add_cores xs ys) = length xs" using arg_cong[OF A2, of length] by simp
  have fu: "full ?u = Inr \<lparr>sizes = sizes a, elems = map2 (+) (elems a) (elems b)\<rparr>"
    using full_tt[OF A1, of "map arange (free_sizes xs)"] by (simp only: lu A2 A3 f1 ea eb)
  note M = mul_entries[OF t1 t2 fr]
  have lv: "length (map2 kron_core xs ys) = length xs" using arg_cong[OF M(2), of length] by simp
  have fv: "full ?v = Inr \<lparr>sizes = sizes a, elems = map2 (*) (elems a) (elems b)\<rparr>"
    using full_tt[OF M(1), of "map arange (free_sizes xs)"] by (simp only: lv M(2) M(3) f1 ea eb)
  show "\<exists>s t u v. Tensor_of_dense a = Inr s \<and> Tensor_of_dense b = Inr t
            \<and> add s (Net t) = Inr u
            \<and> full u = Inr \<lparr>sizes = sizes a, elems = map2 (+) (elems a) (elems b)\<rparr>
            \<and> mul s (Net t) = Inr v
            \<and> full v = Inr \<lparr>sizes = sizes a, elems = map2 (*) (elems a) (elems b)\<rparr>"
    using s t au fu mv fv by blast
next
  show "shape p = Inr sp \<and> shape q = Inr sq \<and> sp \<noteq> sq
        \<longrightarrow> add p (Net q) = Inl ValueError \<and> mul p (Net q) = Inl ValueError"
    using shape_mismatch[of p sp q sq] by blast
qed

text \<open>The theorem at two 2 by 2 arrays, and at two networks of shapes 2 and 3.\<close>

theorem C3_arithmetic_witness:
  "(\<exists>s t u v. Tensor_of_dense \<lparr>sizes = [2, 2], elems = [1, 2, 3, 4]\<rparr> = Inr s
       \<and> Tensor_of_dense \<lparr>sizes = [2, 2], elems = [5, 6, 7, 8]\<rparr> = Inr t
       \<and> add s (Net t) = Inr u
       \<and> full u = Inr \<lparr>sizes = [2, 2], elems = [6, 8, 10, 12]\<rparr>
       \<and> mul s (Net t) = Inr v
       \<and> full v = Inr \<lparr>sizes = [2, 2], elems = [5, 12, 21, 32]\<rparr>)
   \<and> shape \<lparr>cores = [ones [1, 2, 1]], Us = [None], idxs = [[0, 1]]\<rparr> = Inr [2]
   \<and> shape \<lparr>cores = [ones [1, 3, 1]], Us = [None], idxs = [[0, 1, 2]]\<rparr> = Inr [3]
   \<and> add \<lparr>cores = [ones [1, 2, 1]], Us = [None], idxs = [[0, 1]]\<rparr>
          (Net \<lparr>cores = [ones [1, 3, 1]], Us = [None], idxs = [[0, 1, 2]]\<rparr>) = Inl ValueError
   \<and> mul \<lparr>cores = [ones [1, 2, 1]], Us = [None], idxs = [[0, 1]]\<rparr>
          (Net \<lparr>cores = [ones [1, 3, 1]], Us = [None], idxs = [[0, 1, 2]]\<rparr>) = Inl ValueError"
proof -
  have sp: "shape \<lparr>cores = [ones [1, 2, 1]], Us = [None], idxs = [[0, 1]]\<rparr> = Inr [2]"
    and sq: "shape \<lparr>cores = [ones [1, 3, 1]], Us = [None], idxs = [[0, 1, 2]]\<rparr> = Inr [3]"
    by (simp_all add: shape_def mode_size_def ones_def dim_def)
  show ?thesis
    using C3_arithmetic[of "\<lparr>sizes = [2, 2], elems = [1, 2, 3, 4]\<rparr>"
        "\<lparr>sizes = [2, 2], elems = [5, 6, 7, 8]\<rparr>"
        "\<lparr>cores = [ones [1, 2, 1]], Us = [None], idxs = [[0, 1]]\<rparr>" "[2]"
        "\<lparr>cores = [ones [1, 3, 1]], Us = [None], idxs = [[0, 1, 2]]\<rparr>" "[3]"] sp sq
    by simp
qed

text \<open>
  Claim C3 speaks of every two dense arrays of equal shape. For two arrays without axes the
  constructor raises, so there are no networks to add: the whole computation raises
  \<^verbatim>\<open>IndexError\<close>.
\<close>

theorem C3_degenerate_arrays_raise:
  "bind_e (Tensor_of_dense \<lparr>sizes = [], elems = [2]\<rparr>) (\<lambda>s.
   bind_e (Tensor_of_dense \<lparr>sizes = [], elems = [3]\<rparr>) (\<lambda>t.
   bind_e (add s (Net t)) full)) = Inl IndexError"
  by (simp add: Tensor_of_dense_def dim_def py_get_def)

section \<open>Item access\<close>

lemma flush_index_done: "flush_index st = Inr st' \<Longrightarrow> index_done st' = index_done st"
  by (auto simp add: flush_index_def bind_e_def split: option.splits sum.splits)

lemma insert_core_index_done: "insert_core st arg = Inr st' \<Longrightarrow> index_done st' = index_done st"
  by (auto simp add: insert_core_def bind_e_def dest!: flush_index_done
      split: option.splits sum.splits prod.splits)

lemma getitem_step_index_done: "getitem_step t st k = Inr st' \<Longrightarrow> index_done st' = index_done st"
  by (auto simp add: getitem_step_def bind_e_def dest!: insert_core_index_done
      split: option.splits sum.splits mode.splits if_splits)

text \<open>
  Nothing in the loop of \<^verbatim>\<open>__getitem__\<close> assigns \<^verbatim>\<open>index_done\<close>: it is \<open>False\<close> at the
  start and stays so, and the test of line 390 never raises.
\<close>

lemma getitem_loop_index_done:
  "getitem_loop t st ks = Inr st' \<Longrightarrow> index_done st' = index_done st"
proof (induction ks arbitrary: st)
  case Nil
  then show ?case by simp
next
  case (Cons k ks)
  then obtain st1 where 1: "getitem_step t st k = Inr st1" and 2: "getitem_loop t st1 ks = Inr st'"
    by (auto simp add: bind_e_def split: sum.splits)
  show ?case using Cons.IH[OF 2] getitem_step_index_done[OF 1] by simp
qed

text \<open>
  Claim C7 at a key with two index arrays separated by a slice, on the network of the
  2 by 2 by 2 array with the entries 1 to 8: \<^verbatim>\<open>__getitem__\<close> raises nothing and returns a
  network of shape 2 by 2 by 2 (and leaves the receiver as it was).
\<close>

theorem C7_interleaved_index_arrays_accepted:
  "bind_e (Tensor_of_dense \<lparr>sizes = [2, 2, 2], elems = [1, 2, 3, 4, 5, 6, 7, 8]\<rparr>) (\<lambda>t.
     getitem tn_sum t (KeySeq [KIndex [0, 1], KSlice None None None, KIndex [0, 1]]))
   = Inr (Network \<lparr>cores = [\<lparr>sizes = [1, 2, 2], elems = [1, 0, 0, 1]\<rparr>,
                           \<lparr>sizes = [2, 2, 2], elems = [1, 2, 3, 4, 5, 6, 7, 8]\<rparr>,
                           \<lparr>sizes = [2, 2, 1], elems = [1, 0, 0, 1]\<rparr>],
                  Us = [None, None, None], idxs = [[0, 1], [0, 1], [0, 1]]\<rparr>,
          \<lparr>cores = [\<lparr>sizes = [1, 2, 2], elems = [1, 0, 0, 1]\<rparr>,
                           \<lparr>sizes = [2, 2, 2], elems = [1, 2, 3, 4, 5, 6, 7, 8]\<rparr>,
                           \<lparr>sizes = [2, 2, 1], elems = [1, 0, 0, 1]\<rparr>],
                  Us = [None, None, None], idxs = [[0, 1], [0, 1], [0, 1]]\<rparr>)"
  by code_simp




section \<open>Orthogonalization and rounding\<close>

lemma isl_bind_e: "isl m \<Longrightarrow> isl (bind_e m f)"
  by (cases m) simp_all

lemma bind_e_isl_cases: "(\<And>x. m = Inr x \<Longrightarrow> isl (f x)) \<Longrightarrow> isl (bind_e m f)"
  by (cases m) simp_all

text \<open>
  A core with two axes at position \<open>mu\<close>: whatever the primitives return,
  \<^verbatim>\<open>left_orthogonalize\<close> raises. After line 601 the position holds the list of cores, and
  line 604 reads \<^verbatim>\<open>shape\<close> from it, if nothing has raised before.
\<close>

lemma left_orthogonalize_cp_raises:
  assumes mu: "0 \<le> mu" "mu < int (length (obj_cores ob)) - 1"
    and c: "obj_cores ob ! nat mu = Array c" "dim c = 2"
  shows "isl (left_orthogonalize P ob mu)"
proof -
  let ?n = "nat mu"
  let ?ob1 = "set_core ob ?n CoresList"
  have n: "?n < length (obj_cores ob)" using mu by simp
  have g0: "py_get (obj_cores ob) ?n = Inr (Array c)" using n c(1) by (simp add: py_get_def)
  have slot1: "py_get (obj_cores ob') ?n = Inr CoresList"
    if "obj_cores ob' = (obj_cores ob)[?n := CoresList]" for ob'
    using that n by (simp add: py_get_def)
  have fo: "isl (factor_orthogonalize P ?ob1 ?n)
            \<or> factor_orthogonalize P ?ob1 ?n = Inr ?ob1"
  proof (cases "py_get (obj_Us ?ob1) ?n")
    case (Inl e)
    then show ?thesis by (simp add: factor_orthogonalize_def)
  next
    case (Inr U)
    show ?thesis
    proof (cases U)
      case None
      then show ?thesis using Inr by (simp add: factor_orthogonalize_def)
    next
      case (Some u)
      have "isl (factor_orthogonalize P ?ob1 ?n)"
      proof (cases "qr P u")
        case (Inl e)
        then show ?thesis using Inr Some by (simp add: factor_orthogonalize_def)
      next
        case (Inr QR)
        obtain Q R where QR: "QR = (Q, R)" by (cases QR)
        have "py_get (obj_cores (set_U ?ob1 ?n (Some Q))) ?n = Inr CoresList"
          by (rule slot1) (simp add: set_U_def set_core_def)
        then show ?thesis
          using \<open>py_get (obj_Us ?ob1) ?n = Inr U\<close> Some Inr QR
          by (simp add: factor_orthogonalize_def the_array_def)
      qed
      then show ?thesis by simp
    qed
  qed
  have rest: "isl (bind_e (py_get (obj_cores ?ob1) ?n) (\<lambda>s.
        bind_e (left_unfolding P s) (\<lambda>m.
        bind_e (qr P m) (\<lambda>(Q, R).
        bind_e (the_array s) (\<lambda>c. g s m Q R c)))))" for g
  proof -
    have s: "py_get (obj_cores ?ob1) ?n = Inr CoresList"
      by (rule slot1) (simp add: set_core_def)
    show ?thesis
      unfolding s
      by (auto simp add: the_array_def intro!: bind_e_isl_cases)
  qed
  have unfold: "left_orthogonalize P ob mu =
      bind_e (factor_orthogonalize P ?ob1 ?n) (\<lambda>ob2.
        bind_e (py_get (obj_cores ob2) ?n) (\<lambda>s.
        bind_e (left_unfolding P s) (\<lambda>m.
        bind_e (qr P m) (\<lambda>(Q, R).
        bind_e (the_array s) (\<lambda>c.
        bind_e (shp Q 1) (\<lambda>q1.
        bind_e (reshape Q (map Some (butlast (sizes c) @ [q1]))) (\<lambda>c'.
        let ob3 = set_core ob2 ?n (Array c') in
        bind_e (py_get (obj_cores ob3) (?n + 1)) (\<lambda>s1.
        bind_e (right_unfolding P s1) (\<lambda>rightcoreR.
        bind_e (mm R rightcoreR) (\<lambda>m1.
        bind_e (shp R 0) (\<lambda>r0.
        bind_e (the_array s1) (\<lambda>c1.
        bind_e (reshape m1 (map Some (r0 # tl (sizes c1)))) (\<lambda>c1'.
        Inr (set_core ob3 (?n + 1) (Array c1'), R))))))))))))))"
    using mu by (simp add: left_orthogonalize_def g0 the_array_def c(2) Let_def)
  from fo show ?thesis
  proof
    assume "isl (factor_orthogonalize P ?ob1 ?n)"
    then show ?thesis unfolding unfold by (rule isl_bind_e)
  next
    assume e: "factor_orthogonalize P ?ob1 ?n = Inr ?ob1"
    show ?thesis unfolding unfold e bind_e_simps by (rule rest)
  qed
qed

lemma cp_pair_left: "isl (left_orthogonalize P (obj_of cp_pair) 0)"
  by (rule left_orthogonalize_cp_raises[where c = "\<lparr>sizes = [2, 1], elems = [1, 2]\<rparr>"])
     (simp_all add: obj_of_def cp_pair_def dim_def)

text \<open>
  Claim C6 at the network \<^verbatim>\<open>Tensor([A, B])\<close> of two cores with two axes, with
  \<open>mu = 0\<close>. The constructor accepts the two cores. \<^verbatim>\<open>left_orthogonalize(0)\<close> does not
  return: line 601 puts the list of cores at position 0, \<^verbatim>\<open>_cp_to_tt\<close> has no statement,
  and when the unfolding and the factorization of line 603 return, line 604 reads
  \<^verbatim>\<open>shape\<close> from the list and raises \<^verbatim>\<open>AttributeError\<close>. No core with three axes is
  produced, whatever the primitives \<open>P\<close> do.
\<close>

theorem C6_cp_core_not_collapsed:
  "Tensor_of_cores (cores cp_pair) None None = Inr cp_pair \<and>
   left_orthogonalize P (obj_of cp_pair) 0 =
     (case left_unfolding P CoresList of
        Inl e \<Rightarrow> Inl e
      | Inr m \<Rightarrow> (case qr P m of Inl e \<Rightarrow> Inl e | Inr QR \<Rightarrow> Inl AttributeError))"
proof
  show "Tensor_of_cores (cores cp_pair) None None = Inr cp_pair" by code_simp
  show "left_orthogonalize P (obj_of cp_pair) 0 =
     (case left_unfolding P CoresList of
        Inl e \<Rightarrow> Inl e
      | Inr m \<Rightarrow> (case qr P m of Inl e \<Rightarrow> Inl e | Inr QR \<Rightarrow> Inl AttributeError))"
    by (simp add: left_orthogonalize_def obj_of_def cp_pair_def py_get_def the_array_def dim_def
        set_core_def factor_orthogonalize_def Let_def split: sum.splits prod.splits)
qed

text \<open>
  Claim C4 at the same network, with \<open>mu = 1\<close>: \<^verbatim>\<open>orthogonalize(1)\<close> raises, for all
  primitives, since its first step is \<^verbatim>\<open>left_orthogonalize(0)\<close>. The content of the
  network is not kept: there is no network after the call.
\<close>

theorem C4_orthogonalize_cp_raises:
  "isl (orthogonalize P (obj_of cp_pair) 1)"
proof -
  have u: "[0..(1::int) - 1] = [0]" by (simp add: upto.simps)
  show ?thesis
    unfolding orthogonalize_def u left_sweep.simps
    by (intro isl_bind_e cp_pair_left)
qed

text \<open>
  Claim C2 at the same network: \<^verbatim>\<open>round(eps)\<close> raises for every \<open>eps\<close>, all keyword
  arguments and all primitives. \<^verbatim>\<open>round_tt\<close> starts with \<^verbatim>\<open>orthogonalize(N - 1)\<close>,
  which raises as above, so no rounded network is returned.
\<close>

theorem C2_round_cp_raises:
  "isl (round_net P (obj_of cp_pair) eps kw)"
proof -
  have u: "[0..(1::int)] = [0, 1]" "[0..(0::int)] = [0]" by (simp_all add: upto.simps)
  have o: "isl (orthogonalize P (obj_of cp_pair) 1)"
    unfolding orthogonalize_def
    by (simp add: upto.simps isl_bind_e cp_pair_left)
  have n: "int (length (obj_cores (obj_of cp_pair))) - 1 = 1"
    by (simp add: obj_of_def cp_pair_def)
  have rt: "isl (round_tt P (obj_of cp_pair) eps kw)"
    unfolding round_tt_def Let_def n
    using o by (simp add: isl_bind_e)
  show ?thesis
    unfolding round_net_def
    by (intro bind_e_isl_cases isl_bind_e rt)
qed









section \<open>Operands and storage\<close>

text \<open>What it is for an operation on the store to return or to raise.\<close>

lemma bind_s_Inr:
  "(bind_s m f st = Inr r) = (\<exists>x st1. m st = Inr (x, st1) \<and> f x st1 = Inr r)"
  by (auto simp add: bind_s_def split: sum.splits)

lemma pure_s_Inr: "(pure_s x st = Inr (y, st')) = (y = x \<and> st' = st)"
  by (auto simp add: pure_s_def)

lemma lift_s_Inr: "(lift_s v st = Inr (x, st')) = (v = Inr x \<and> st' = st)"
  by (auto simp add: lift_s_def split: sum.splits)

lemma new_Inr:
  "(new v st = Inr (x, st')) =
     (\<exists>a. v = Inr a \<and> x = \<lparr>storage = next_free st, shown = a\<rparr>
          \<and> st' = st\<lparr>next_free := next_free st + 1\<rparr>)"
  by (auto simp add: new_def split: sum.splits)

lemma reshaped_Inr:
  "(reshaped x sh st = Inr (y, st')) =
     (\<exists>a. reshape (shown x) sh = Inr a \<and> y = \<lparr>storage = storage x, shown = a\<rparr> \<and> st' = st)"
  by (cases "reshape (shown x) sh") (auto simp add: reshaped_def lift_s_Inr)

lemma allocatesD:
  assumes "allocates F m" "m st = Inr (x, st')"
  shows "next_free st \<le> next_free st'" "writes st' = writes st"
    "list_all (\<lambda>a. next_free st \<le> a) (F x)"
  using assms by (auto simp add: allocates_def)

lemma add_mode_ref_allocates:
  "allocates (\<lambda>(c, u). storage c # (case u of None \<Rightarrow> [] | Some v \<Rightarrow> [storage v]))
     (add_mode_ref sn core1 U1 core2 U2)"
  unfolding allocates_def add_mode_ref_def
  by (auto simp add: bind_s_Inr pure_s_Inr lift_s_Inr new_Inr split: option.splits)

lemma mul_mode_ref_allocates:
  "allocates (\<lambda>(c, u). storage c # (case u of None \<Rightarrow> [] | Some v \<Rightarrow> [storage v]))
     (mul_mode_ref sn core1 U1 core2 U2)"
  unfolding allocates_def mul_mode_ref_def core_kron_ref_def
  by (auto simp add: bind_s_Inr pure_s_Inr lift_s_Inr new_Inr reshaped_Inr split: option.splits if_splits)

text \<open>The loops, the constructor and \<^verbatim>\<open>full_tucker\<close> allocate.\<close>

lemma list_all_mono_le:
  "list_all (\<lambda>a. (n::nat) \<le> a) xs \<Longrightarrow> m \<le> n \<Longrightarrow> list_all (\<lambda>a. m \<le> a) xs"
  by (auto simp add: list_all_iff)

lemma map_s_allocates:
  assumes "\<And>x. allocates F (f x)"
  shows "allocates (\<lambda>ys. concat (map F ys)) (map_s f xs)"
proof (induction xs)
  case Nil
  then show ?case by (simp add: allocates_def pure_s_Inr)
next
  case (Cons x xs)
  show ?case
    unfolding allocates_def
  proof (intro allI impI)
    fix st ys st'
    assume "map_s f (x # xs) st = Inr (ys, st')"
    then obtain y st1 zs where y: "f x st = Inr (y, st1)"
      and zs: "map_s f xs st1 = Inr (zs, st')" and ys: "ys = y # zs"
      by (auto simp add: bind_s_Inr pure_s_Inr)
    note a = allocatesD[OF assms y] and b = allocatesD[OF Cons.IH zs]
    show "next_free st \<le> next_free st' \<and> writes st' = writes st
          \<and> list_all (\<lambda>a. next_free st \<le> a) (concat (map F ys))"
      using a b list_all_mono_le[OF b(3) a(1)] by (simp add: ys)
  qed
qed

lemma map_s_length: "map_s f xs st = Inr (ys, st') \<Longrightarrow> length ys = length xs"
  by (induction xs arbitrary: ys st) (auto simp add: bind_s_Inr pure_s_Inr)

lemma Tensor_of_refs_Inr:
  assumes "Tensor_of_refs cs us ix st = Inr (r, st')"
  shows "ref_cores r = cs"
    and "ref_Us r = (case us of Some u \<Rightarrow> u | None \<Rightarrow> replicate (length cs) None)"
    and "next_free st \<le> next_free st'" and "writes st' = writes st"
    and "ix = None \<Longrightarrow> label_storage (ref_idxs r) = next_free st"
    and "\<And>l. ix = Some l \<Longrightarrow> ref_idxs r = l"
  using assms
  by (auto simp add: Tensor_of_refs_def Let_def split: sum.splits option.splits)

lemma expand_refs_allocates: "allocates (map storage) (expand_refs cs us)"
  unfolding allocates_def
proof (induction cs us rule: expand_refs.induct)
  case (1 us)
  then show ?case by (simp add: pure_s_Inr)
next
  case (2 c cs)
  then show ?case by (simp add: lift_s_Inr)
next
  case (3 c cs u us)
  show ?case
  proof (intro allI impI)
    fix st ys st'
    assume "expand_refs (c # cs) (u # us) st = Inr (ys, st')"
    then obtain y st1 zs where
      y: "(case u of Some m \<Rightarrow> new (if dim (shown c) = 2 then einsum_jk_aj (shown c) (shown m)
                                else einsum_ijk_aj (shown c) (shown m))
             | None \<Rightarrow> new (Inr (shown c))) st = Inr (y, st1)"
      and zs: "expand_refs cs us st1 = Inr (zs, st')" and ys: "ys = y # zs"
      by (auto simp add: bind_s_Inr pure_s_Inr)
    from y have a: "storage y = next_free st" "next_free st1 = next_free st + 1"
      "writes st1 = writes st"
      by (auto simp add: new_Inr split: option.splits)
    from 3 zs have b: "next_free st1 \<le> next_free st'" "writes st' = writes st1"
      "list_all (\<lambda>a. next_free st1 \<le> a) (map storage zs)" by blast+
    show "next_free st \<le> next_free st' \<and> writes st' = writes st
          \<and> list_all (\<lambda>a. next_free st \<le> a) (map storage ys)"
      using a b list_all_mono_le[OF b(3), of "next_free st"] by (simp add: ys)
  qed
qed

lemma full_tucker_ref_allocates: "allocates (\<lambda>r. map storage (ref_cores r)) (full_tucker_ref s)"
  unfolding allocates_def
proof (intro allI impI)
  fix st r st'
  assume "full_tucker_ref s st = Inr (r, st')"
  then obtain cs st1 where e: "expand_refs (ref_cores s) (ref_Us s) st = Inr (cs, st1)"
    and t: "Tensor_of_refs cs None (Some (ref_idxs s)) st1 = Inr (r, st')"
    by (auto simp add: full_tucker_ref_def bind_s_Inr)
  note a = allocatesD[OF expand_refs_allocates e] and b = Tensor_of_refs_Inr[OF t]
  show "next_free st \<le> next_free st' \<and> writes st' = writes st
        \<and> list_all (\<lambda>a. next_free st \<le> a) (map storage (ref_cores r))"
    using a b(1,3,4) by simp
qed

lemma add_mode_at_ref_allocates:
  "allocates (\<lambda>(c, u). storage c # (case u of None \<Rightarrow> [] | Some v \<Rightarrow> [storage v]))
     (add_mode_at_ref s t sh n)"
  using add_mode_ref_allocates
  unfolding allocates_def add_mode_at_ref_def
  by (simp add: bind_s_Inr lift_s_Inr) blast

lemma mul_mode_at_ref_allocates:
  "allocates (\<lambda>(c, u). storage c # (case u of None \<Rightarrow> [] | Some v \<Rightarrow> [storage v]))
     (mul_mode_at_ref s t sh n)"
  using mul_mode_ref_allocates
  unfolding allocates_def mul_mode_at_ref_def
  by (simp add: bind_s_Inr lift_s_Inr) blast

text \<open>The storages of a network from the lists of its cores and factors.\<close>

lemma storages_of_pairs:
  assumes "list_all (\<lambda>a. n \<le> a)
     (concat (map (\<lambda>(c, u). storage c # (case u of None \<Rightarrow> [] | Some v \<Rightarrow> [storage v])) cus))"
  shows "list_all (\<lambda>a. n \<le> a) (map storage (map fst cus))"
    and "list_all (\<lambda>a. n \<le> a)
           (concat (map (\<lambda>u. case u of None \<Rightarrow> [] | Some a \<Rightarrow> [storage a]) (map snd cus)))"
  using assms by (induction cus) (auto split: option.splits)

lemma list_all_update:
  "list_all P xs \<Longrightarrow> P y \<Longrightarrow> list_all P (xs[i := y])"
  by (auto simp add: list_all_iff dest!: subsetD[OF set_update_subset_insert])

text \<open>
  The operators on the store: what they record as written, and where the arrays of their
  results are.
\<close>

lemma add_ref_frame:
  assumes "add_ref s t st = Inr (r, st')"
  shows "writes st' = writes st" and "next_free st \<le> next_free st'"
    and "list_all (\<lambda>a. next_free st \<le> a) (label_storage (ref_idxs r) # array_storages r)"
proof -
  let ?n = "next_free st"
  have "writes st' = writes st \<and> ?n \<le> next_free st'
        \<and> list_all (\<lambda>a. ?n \<le> a) (label_storage (ref_idxs r) # array_storages r)"
  proof (cases "length (ref_cores s) = 1")
    case True
    from assms True obtain s' st1 t' st2 c st3 and c1 c2 :: aref where
      fs: "full_tucker_ref s st = Inr (s', st1)"
      and ft: "full_tucker_ref t st1 = Inr (t', st2)"
      and c: "new (add_arr (shown c1) (shown c2)) st2 = Inr (c, st3)"
      and tr: "Tensor_of_refs [c] None None st3 = Inr (r, st')"
      by (auto simp add: add_ref_def bind_s_Inr lift_s_Inr split: if_splits)
    note a = allocatesD[OF full_tucker_ref_allocates fs]
      and b = allocatesD[OF full_tucker_ref_allocates ft]
      and d = Tensor_of_refs_Inr[OF tr]
    from c have c': "storage c = next_free st2" "next_free st3 = next_free st2 + 1"
      "writes st3 = writes st2" by (auto simp add: new_Inr)
    show ?thesis
      using a(1,2) b(1,2) c' d(1-4) d(5)[OF refl]
      by (simp add: array_storages_def)
  next
    case False
    from assms False obtain sh cus st1 c0' st2 cl st3 and c0 :: aref where
      m: "map_s (add_mode_at_ref s t sh) [0..<length (ref_cores s)] st = Inr (cus, st1)"
      and c0: "new (sum_dim0 (shown c0)) st1 = Inr (c0', st2)"
      and cl: "new (sum_dim2 (shown (last ((map fst cus)[0 := c0'])))) st2 = Inr (cl, st3)"
      and tr: "Tensor_of_refs (((map fst cus)[0 := c0'])[length ((map fst cus)[0 := c0']) - 1 := cl])
                 (Some (map snd cus)) None st3 = Inr (r, st')"
      by (auto simp add: add_ref_def bind_s_Inr lift_s_Inr Let_def split: if_splits)
    note a = allocatesD[OF map_s_allocates[of _ "add_mode_at_ref s t sh", OF add_mode_at_ref_allocates] m]
      and d = Tensor_of_refs_Inr[OF tr]
    note p = storages_of_pairs[OF a(3)]
    from c0 have c0': "storage c0' = next_free st1" "next_free st2 = next_free st1 + 1"
      "writes st2 = writes st1" by (auto simp add: new_Inr)
    from cl have cl': "storage cl = next_free st2" "next_free st3 = next_free st2 + 1"
      "writes st3 = writes st2" by (auto simp add: new_Inr)
    have cores: "list_all (\<lambda>a. ?n \<le> a) (map storage (ref_cores r))"
      unfolding d(1) map_update
      by (intro list_all_update p(1)) (use a(1) c0' cl' in simp_all)
    have us: "ref_Us r = map snd cus" using d(2) by simp
    show ?thesis
      using a(1,2) c0' cl' d(3,4) d(5)[OF refl] cores p(2)
      by (simp add: array_storages_def us)
  qed
  then show "writes st' = writes st" "next_free st \<le> next_free st'"
    "list_all (\<lambda>a. next_free st \<le> a) (label_storage (ref_idxs r) # array_storages r)"
    by simp_all
qed

lemma mul_ref_frame:
  assumes "mul_ref s t st = Inr (r, st')"
  shows "writes st' = writes st" and "next_free st \<le> next_free st'"
    and "list_all (\<lambda>a. next_free st \<le> a) (label_storage (ref_idxs r) # array_storages r)"
proof -
  from assms obtain sh cus st1 where
    m: "map_s (mul_mode_at_ref s t sh) [0..<length (ref_cores s)] st = Inr (cus, st1)"
    and tr: "Tensor_of_refs (map fst cus) (Some (map snd cus)) None st1 = Inr (r, st')"
    by (auto simp add: mul_ref_def bind_s_Inr lift_s_Inr split: if_splits)
  note a = allocatesD[OF map_s_allocates[of _ "mul_mode_at_ref s t sh", OF mul_mode_at_ref_allocates] m]
    and d = Tensor_of_refs_Inr[OF tr]
  note p = storages_of_pairs[OF a(3)]
  have us: "ref_Us r = map snd cus" using d(2) by simp
  show "writes st' = writes st" "next_free st \<le> next_free st'"
    "list_all (\<lambda>a. next_free st \<le> a) (label_storage (ref_idxs r) # array_storages r)"
    using a(1,2) d(1,3,4) d(5)[OF refl] p by (simp_all add: array_storages_def us)
qed

lemma clone_cores_allocates:
  "allocates (map storage)
     (map_s (\<lambda>n. bind_s (lift_s (py_get cs n)) (\<lambda>c. new (Inr (shown c)))) ns)"
proof -
  have "allocates (\<lambda>x. [storage x]) (bind_s (lift_s (py_get cs n)) (\<lambda>c. new (Inr (shown c))))" for n
    unfolding allocates_def by (auto simp add: bind_s_Inr lift_s_Inr new_Inr)
  from map_s_allocates[of "\<lambda>x. [storage x]", OF this]
  show ?thesis by (simp add: allocates_def)
qed

lemma clone_factors_allocates:
  "allocates (\<lambda>us. concat (map (\<lambda>u. case u of None \<Rightarrow> [] | Some a \<Rightarrow> [storage a]) us))
     (map_s (\<lambda>n. bind_s (lift_s (py_get us n)) (\<lambda>U.
                  case U of
                    None \<Rightarrow> pure_s None
                  | Some u \<Rightarrow> bind_s (new (Inr (shown u))) (\<lambda>u'. pure_s (Some u')))) ns)"
proof (rule map_s_allocates)
  fix n
  show "allocates (\<lambda>u. case u of None \<Rightarrow> [] | Some a \<Rightarrow> [storage a])
     (bind_s (lift_s (py_get us n)) (\<lambda>U.
                  case U of
                    None \<Rightarrow> pure_s None
                  | Some u \<Rightarrow> bind_s (new (Inr (shown u))) (\<lambda>u'. pure_s (Some u'))))"
    unfolding allocates_def
    by (auto simp add: bind_s_Inr lift_s_Inr new_Inr pure_s_Inr split: option.splits)
qed

lemma clone_ref_frame:
  assumes "clone_ref s st = Inr (r, st')"
  shows "writes st' = writes st" and "next_free st \<le> next_free st'"
    and "list_all (\<lambda>a. next_free st \<le> a) (array_storages r)" and "ref_idxs r = ref_idxs s"
proof -
  from assms obtain cs st1 us st2 where
    c: "map_s (\<lambda>n. bind_s (lift_s (py_get (ref_cores s) n)) (\<lambda>c. new (Inr (shown c))))
          [0..<length (ref_cores s)] st = Inr (cs, st1)"
    and u: "map_s (\<lambda>n. bind_s (lift_s (py_get (ref_Us s) n)) (\<lambda>U.
                  case U of
                    None \<Rightarrow> pure_s None
                  | Some u \<Rightarrow> bind_s (new (Inr (shown u))) (\<lambda>u'. pure_s (Some u'))))
          [0..<length (ref_cores s)] st1 = Inr (us, st2)"
    and tr: "Tensor_of_refs cs (Some us) (Some (ref_idxs s)) st2 = Inr (r, st')"
    by (auto simp add: clone_ref_def bind_s_Inr)
  note a = allocatesD[OF clone_cores_allocates c] and b = allocatesD[OF clone_factors_allocates u]
    and d = Tensor_of_refs_Inr[OF tr]
  have us: "ref_Us r = us" using d(2) by simp
  show "writes st' = writes st" "next_free st \<le> next_free st'" "ref_idxs r = ref_idxs s"
    using a(1,2) b(1,2) d(3,4) d(6)[OF refl] by simp_all
  show "list_all (\<lambda>a. next_free st \<le> a) (array_storages r)"
    using a(3) list_all_mono_le[OF b(3) a(1)] by (simp add: array_storages_def d(1) us)
qed

lemma scale_net_at_other:
  assumes "list_all (\<lambda>a. a \<noteq> b) (array_storages s)"
  shows "scale_net_at b x s = s"
proof -
  have c: "map (scale_at b x) (ref_cores s) = ref_cores s"
    using assms by (intro map_idI) (auto simp add: array_storages_def list_all_iff scale_at_def)
  have u: "map (map_option (scale_at b x)) (ref_Us s) = ref_Us s"
  proof (intro map_idI)
    fix v assume v: "v \<in> set (ref_Us s)"
    show "map_option (scale_at b x) v = v"
    proof (cases v)
      case None
      then show ?thesis by simp
    next
      case (Some a)
      then have "storage a \<noteq> b"
        using assms v by (force simp add: array_storages_def list_all_iff)
      then show ?thesis using Some by (simp add: scale_at_def)
    qed
  qed
  show ?thesis by (simp add: scale_net_at_def c u)
qed

lemma scale_net_at_storages [simp]:
  "array_storages (scale_net_at b x s) = array_storages s"
proof -
  have s: "storage (scale_at b x a) = storage a" for a by (simp add: scale_at_def)
  have "(case map_option (scale_at b x) v of None \<Rightarrow> [] | Some a \<Rightarrow> [storage a])
        = (case v of None \<Rightarrow> [] | Some a \<Rightarrow> [storage a])" for v
    by (cases v) (simp_all add: s)
  then show ?thesis
    by (simp add: array_storages_def scale_net_at_def comp_def s)
qed

lemma scale_net_at_idxs [simp]: "ref_idxs (scale_net_at b x s) = ref_idxs s"
  by (simp add: scale_net_at_def)

text \<open>
  In-place products on storage above \<open>n\<close> leave a network with its arrays below \<open>n\<close> as it
  is.
\<close>

lemma after_above:
  assumes "list_all (\<lambda>a. a < n) (array_storages s)" "list_all (\<lambda>(a, r). n \<le> a) ws"
  shows "after ws s = s"
  using assms
proof (induction ws)
  case Nil
  then show ?case by simp
next
  case (Cons w ws)
  obtain a r where w: "w = (a, r)" by (cases w)
  from Cons.prems have "n \<le> a" by (simp add: w)
  then have "list_all (\<lambda>b. b \<noteq> a) (array_storages s)"
    using Cons.prems(1) by (auto simp add: list_all_iff)
  then have "scale_net_at a r s = s" by (rule scale_net_at_other)
  then show ?case using Cons by (simp add: w)
qed

lemma mul_scalar_ref_frame:
  assumes "mul_scalar_ref s x st = Inr (r, st')"
  shows "\<exists>a. writes st' = writes st @ [(a, x)] \<and> next_free st \<le> a"
    and "next_free st \<le> next_free st'"
    and "list_all (\<lambda>a. next_free st \<le> a) (array_storages r)" and "ref_idxs r = ref_idxs s"
proof -
  from assms obtain res st1 c0 where
    c: "clone_ref s st = Inr (res, st1)" and g: "py_get (ref_cores res) 0 = Inr c0"
    and r: "r = scale_net_at (storage c0) x res"
    and st': "st' = st1\<lparr>writes := writes st1 @ [(storage c0, x)]\<rparr>"
    by (auto simp add: mul_scalar_ref_def bind_s_Inr lift_s_Inr)
  note a = clone_ref_frame[OF c]
  have "c0 \<in> set (ref_cores res)" using g by (auto simp add: py_get_def split: if_splits)
  then have f: "next_free st \<le> storage c0"
    using a(3) by (auto simp add: array_storages_def list_all_iff)
  show "\<exists>a. writes st' = writes st @ [(a, x)] \<and> next_free st \<le> a"
    using f a(1) by (simp add: st')
  show "next_free st \<le> next_free st'" using a(2) by (simp add: st')
  show "list_all (\<lambda>a. next_free st \<le> a) (array_storages r)" using a(3) by (simp add: r)
  show "ref_idxs r = ref_idxs s" using a(4) by (simp add: r)
qed

lemma sub_ref_frame:
  assumes "sub_ref s t st = Inr (r, st')"
  shows "\<exists>a. writes st' = writes st @ [(a, - 1)] \<and> next_free st \<le> a"
    and "list_all (\<lambda>a. next_free st \<le> a) (label_storage (ref_idxs r) # array_storages r)"
proof -
  from assms obtain t1 st1 where m: "mul_scalar_ref t (- 1) st = Inr (t1, st1)"
    and a: "add_ref s t1 st1 = Inr (r, st')"
    by (auto simp add: sub_ref_def bind_s_Inr)
  note f = mul_scalar_ref_frame[OF m] and g = add_ref_frame[OF a]
  show "\<exists>a. writes st' = writes st @ [(a, - 1)] \<and> next_free st \<le> a"
    using f(1) g(1) by simp
  show "list_all (\<lambda>a. next_free st \<le> a) (label_storage (ref_idxs r) # array_storages r)"
    by (rule list_all_mono_le[OF g(3) f(2)])
qed

text \<open>
  The operations on the store compute the networks that the operations on arrays of the
  section on arithmetic compute, and raise what they raise.
\<close>

lemma bind_s_Inl:
  "(bind_s m f st = Inl e) = (m st = Inl e \<or> (\<exists>x st1. m st = Inr (x, st1) \<and> f x st1 = Inl e))"
  by (auto simp add: bind_s_def split: sum.splits)

lemma pure_s_Inl: "(pure_s x st = Inl e) = False"
  by (simp add: pure_s_def)

lemma lift_s_Inl: "(lift_s v st = Inl e) = (v = Inl e)"
  by (auto simp add: lift_s_def split: sum.splits)

lemma new_Inl: "(new v st = Inl e) = (v = Inl e)"
  by (auto simp add: new_def split: sum.splits)

lemma reshaped_Inl: "(reshaped x sh st = Inl e) = (reshape (shown x) sh = Inl e)"
  by (cases "reshape (shown x) sh") (auto simp add: reshaped_def lift_s_Inl)

lemmas store_simps = bind_s_Inr bind_s_Inl pure_s_Inr pure_s_Inl lift_s_Inr lift_s_Inl
  new_Inr new_Inl reshaped_Inr reshaped_Inl

lemma value_ofI:
  assumes "\<And>x st'. r = Inr (x, st') \<Longrightarrow> v = Inr (f x)" "\<And>e. r = Inl e \<Longrightarrow> v = Inl e"
  shows "value_of f r = v"
  using assms by (cases r) (auto simp add: value_of_def)

lemma add_mode_ref_value:
  "value_of (\<lambda>(c, u). (shown c, map_option shown u)) (add_mode_ref sn core1 U1 core2 U2 st)
   = add_mode sn (shown core1) (map_option shown U1) (shown core2) (map_option shown U2)"
  by (rule value_ofI)
    (auto simp add: add_mode_ref_def add_mode_def store_simps split: option.splits)

lemma value_of_Inr: "r = Inr (x, st') \<Longrightarrow> value_of f r = Inr (f x)"
  by (simp add: value_of_def)

lemma value_of_Inl: "r = Inl e \<Longrightarrow> value_of f r = Inl e"
  by (simp add: value_of_def)

lemma value_of_cases:
  "(\<exists>e. value_of f r = Inl e \<and> r = Inl e) \<or> (\<exists>x st'. value_of f r = Inr (f x) \<and> r = Inr (x, st'))"
  by (cases r) (auto simp add: value_of_def)

lemma mul_mode_ref_value:
  "value_of (\<lambda>(c, u). (shown c, map_option shown u)) (mul_mode_ref sn core1 U1 core2 U2 st)
   = mul_mode sn (shown core1) (map_option shown U1) (shown core2) (map_option shown U2)"
  by (rule value_ofI)
    (auto simp add: mul_mode_ref_def mul_mode_def core_kron_ref_def store_simps
      split: option.splits if_splits)

lemma map_s_value:
  assumes "\<And>x st. value_of g (f x st) = h x"
  shows "value_of (map g) (map_s f xs st) = map_e h xs"
proof (induction xs arbitrary: st)
  case Nil
  then show ?case by (simp add: value_of_def pure_s_def)
next
  case (Cons x xs)
  show ?case
  proof (cases "f x st")
    case (Inl e)
    then have "h x = Inl e" using assms[of x st] by (simp add: value_of_def)
    then show ?thesis using Inl by (simp add: value_of_def bind_s_def)
  next
    case (Inr p)
    obtain y st1 where p: "p = (y, st1)" by (cases p)
    have hx: "h x = Inr (g y)" using assms[of x st] Inr p by (simp add: value_of_def)
    show ?thesis
    proof (cases "map_s f xs st1")
      case (Inl e)
      then have "map_e h xs = Inl e" using Cons.IH[of st1] by (simp add: value_of_def)
      then show ?thesis using Inr p Inl hx by (simp add: value_of_def bind_s_def)
    next
      case (Inr q)
      obtain ys st2 where q: "q = (ys, st2)" by (cases q)
      have "map_e h xs = Inr (map g ys)" using Cons.IH[of st1] Inr q by (simp add: value_of_def)
      then show ?thesis
        using \<open>f x st = Inr p\<close> p Inr q hx by (simp add: value_of_def bind_s_def pure_s_def)
    qed
  qed
qed

lemma net_of_simps [simp]:
  "cores (net_of r) = map shown (ref_cores r)"
  "Us (net_of r) = map (map_option shown) (ref_Us r)"
  "idxs (net_of r) = label_lists (ref_idxs r)"
  by (simp_all add: net_of_def)

lemma Tensor_of_cores_fields:
  assumes "Tensor_of_cores cs us ix = Inr t"
  shows "cores t = cs"
    and "Us t = (case us of Some u \<Rightarrow> u | None \<Rightarrow> replicate (length cs) None)"
    and "\<And>l. ix = Some l \<Longrightarrow> idxs t = l"
  using assms
  by (auto simp add: Tensor_of_cores_def bind_e_def split: if_splits sum.splits option.splits)

lemma Tensor_of_refs_value:
  "value_of net_of (Tensor_of_refs cs us ix st)
   = Tensor_of_cores (map shown cs) (map_option (map (map_option shown)) us)
       (map_option label_lists ix)"
proof (cases "Tensor_of_cores (map shown cs) (map_option (map (map_option shown)) us)
       (map_option label_lists ix)")
  case (Inl e)
  then show ?thesis by (simp add: Tensor_of_refs_def value_of_def)
next
  case (Inr t)
  note f = Tensor_of_cores_fields[OF Inr]
  have "t = \<lparr>cores = cores t, Us = Us t, idxs = idxs t\<rparr>" by simp
  show ?thesis
  proof (cases ix)
    case None
    have "net_of \<lparr>ref_cores = cs,
              ref_Us = (case us of Some u \<Rightarrow> u | None \<Rightarrow> replicate (length cs) None),
              ref_idxs = \<lparr>label_storage = next_free st, label_lists = idxs t\<rparr>\<rparr> = t"
      using f(1,2) by (cases us) (simp_all add: net_of_def)
    then show ?thesis using Inr None by (simp add: Tensor_of_refs_def value_of_def Let_def)
  next
    case (Some l)
    have "net_of \<lparr>ref_cores = cs,
              ref_Us = (case us of Some u \<Rightarrow> u | None \<Rightarrow> replicate (length cs) None),
              ref_idxs = l\<rparr> = t"
      using f(1,2) f(3)[of "label_lists l"] Some by (cases us) (simp_all add: net_of_def)
    then show ?thesis using Inr Some by (simp add: Tensor_of_refs_def value_of_def Let_def)
  qed
qed

lemma expand_refs_value:
  "value_of (map shown) (expand_refs cs us st)
   = expand_cores (map shown cs) (map (map_option shown) us)"
proof (induction cs us arbitrary: st rule: expand_refs.induct)
  case (1 us)
  then show ?case by (simp add: value_of_def pure_s_def)
next
  case (2 c cs)
  then show ?case by (simp add: value_of_def lift_s_def)
next
  case (3 c cs u us)
  let ?v = "case map_option shown u of
              Some m \<Rightarrow> (if dim (shown c) = 2 then einsum_jk_aj (shown c) m else einsum_ijk_aj (shown c) m)
            | None \<Rightarrow> Inr (shown c)"
  let ?m = "case u of
               Some m \<Rightarrow> new (if dim (shown c) = 2 then einsum_jk_aj (shown c) (shown m)
                                else einsum_ijk_aj (shown c) (shown m))
             | None \<Rightarrow> new (Inr (shown c))"
  have m: "?m st = new ?v st" by (cases u) simp_all
  show ?case
  proof (cases ?v)
    case (Inl e)
    then have "?m st = Inl e" unfolding m by (simp add: new_def)
    then show ?thesis using Inl by (simp add: value_of_def bind_s_def)
  next
    case (Inr a)
    let ?st1 = "st\<lparr>next_free := next_free st + 1\<rparr>"
    have ms: "?m st = Inr (\<lparr>storage = next_free st, shown = a\<rparr>, ?st1)"
      unfolding m using Inr by (simp add: new_def)
    from value_of_cases[of "map shown" "expand_refs cs us ?st1"]
    show ?thesis
      using 3[of ?st1] Inr ms
      by (auto simp add: value_of_def bind_s_def pure_s_def)
  qed
qed

lemma value_of_bind:
  assumes "value_of g (m st) = a"
    and "\<And>x st1. m st = Inr (x, st1) \<Longrightarrow> value_of h (f x st1) = k (g x)"
  shows "value_of h (bind_s m f st) = bind_e a k"
proof (cases "m st")
  case (Inl e)
  then show ?thesis using assms(1) by (auto simp add: value_of_def bind_s_def)
next
  case (Inr p)
  obtain x st1 where p: "p = (x, st1)" by (cases p)
  have "a = Inr (g x)" using assms(1) Inr p by (simp add: value_of_def)
  then show ?thesis using assms(2)[of x st1] Inr p by (simp add: bind_s_def)
qed

lemma value_of_lift: "value_of g (lift_s v st) = bind_e v (\<lambda>x. Inr (g x))"
  by (cases v) (simp_all add: value_of_def lift_s_def)

lemma value_of_lift_id: "value_of (\<lambda>x. x) (lift_s v st) = v"
  by (cases v) (simp_all add: value_of_def lift_s_def)

lemma value_of_new: "value_of shown (new v st) = v"
  by (cases v) (simp_all add: value_of_def new_def)

lemma py_get_map: "bind_e (py_get xs n) (\<lambda>x. Inr (f x)) = py_get (map f xs) n"
  by (simp add: py_get_def)

lemma full_tucker_ref_value:
  "value_of net_of (full_tucker_ref s st) = full_tucker (net_of s)"
  unfolding full_tucker_ref_def full_tucker_def
  by (rule value_of_bind[where g = "map shown"])
     (simp_all add: expand_refs_value Tensor_of_refs_value)

lemma add_mode_at_ref_value:
  "value_of (\<lambda>(c, u). (shown c, map_option shown u)) (add_mode_at_ref s t sh n st)
   = add_mode_at (net_of s) (net_of t) sh n"
  unfolding add_mode_at_ref_def add_mode_at_def
  apply (rule value_of_bind[where g = shown])
   apply (simp add: value_of_lift py_get_map)
  apply (rule value_of_bind[where g = shown])
   apply (simp add: value_of_lift py_get_map)
  apply (rule value_of_bind[where g = "map_option shown"])
   apply (simp add: value_of_lift py_get_map)
  apply (rule value_of_bind[where g = "map_option shown"])
   apply (simp add: value_of_lift py_get_map)
  apply (rule value_of_bind[where g = "\<lambda>x. x"])
   apply (simp add: value_of_lift_id)
  apply (rule add_mode_ref_value)
  done

lemma mul_mode_at_ref_value:
  "value_of (\<lambda>(c, u). (shown c, map_option shown u)) (mul_mode_at_ref s t sh n st)
   = mul_mode_at (net_of s) (net_of t) sh n"
  unfolding mul_mode_at_ref_def mul_mode_at_def
  apply (rule value_of_bind[where g = "map_option shown"])
   apply (simp add: value_of_lift py_get_map)
  apply (rule value_of_bind[where g = "map_option shown"])
   apply (simp add: value_of_lift py_get_map)
  apply (rule value_of_bind[where g = shown])
   apply (simp add: value_of_lift py_get_map)
  apply (rule value_of_bind[where g = shown])
   apply (simp add: value_of_lift py_get_map)
  apply (rule value_of_bind[where g = "\<lambda>x. x"])
   apply (simp add: value_of_lift_id)
  apply (rule mul_mode_ref_value)
  done

lemma mul_ref_value:
  "value_of net_of (mul_ref s t st) = mul (net_of s) (Net (net_of t))"
proof -
  let ?g = "\<lambda>(c, u). (shown c, map_option shown u)"
  have m: "value_of (map ?g) (map_s (mul_mode_at_ref s t sh) ns st1)
           = map_e (mul_mode_at (net_of s) (net_of t) sh) ns" for sh ns st1
    by (rule map_s_value) (rule mul_mode_at_ref_value)
  have f: "map shown (map fst cus) = map fst (map ?g cus)"
    "map (map_option shown) (map snd cus) = map snd (map ?g cus)" for cus
    by (simp_all add: comp_def case_prod_beta)
  show ?thesis
    unfolding mul_ref_def mul_def operand.case ndim_def
    apply (rule value_of_bind[where g = "\<lambda>x. x"])
     apply (simp add: value_of_lift_id)
    apply (rule value_of_bind[where g = "\<lambda>x. x"])
     apply (simp add: value_of_lift_id)
    subgoal for sh st1 sh' st2
      apply (cases "sh = sh'")
       apply (simp only: not_not not_True_eq_False if_False refl net_of_simps length_map)
       apply (rule value_of_bind[where g = "map ?g"])
        apply (rule m[simplified])
       apply (simp only: Tensor_of_refs_value f option.map)
      apply (simp add: value_of_lift)
      done
    done
qed

lemma add_ref_value:
  "value_of net_of (add_ref s t st) = add_nets (net_of s) (net_of t)"
proof -
  let ?g = "\<lambda>(c, u). (shown c, map_option shown u)"
  have m: "value_of (map ?g) (map_s (add_mode_at_ref s t sh) ns st1)
           = map_e (add_mode_at (net_of s) (net_of t) sh) ns" for sh ns st1
    by (rule map_s_value) (rule add_mode_at_ref_value)
  have f: "map shown (map fst cus) = map fst (map ?g cus)"
    "map (map_option shown) (map snd cus) = map snd (map ?g cus)" for cus
    by (simp_all add: comp_def case_prod_beta)
  have one: "value_of net_of
       (bind_s (full_tucker_ref s) (\<lambda>s'. bind_s (lift_s (py_get (ref_cores s') 0)) (\<lambda>c1.
        bind_s (full_tucker_ref t) (\<lambda>t'. bind_s (lift_s (py_get (ref_cores t') 0)) (\<lambda>c2.
        bind_s (new (add_arr (shown c1) (shown c2))) (\<lambda>c. Tensor_of_refs [c] None None))))) st2)
     = bind_e (full_tucker (net_of s)) (\<lambda>s'. bind_e (py_get (cores s') 0) (\<lambda>c1.
       bind_e (full_tucker (net_of t)) (\<lambda>t'. bind_e (py_get (cores t') 0) (\<lambda>c2.
       bind_e (add_arr c1 c2) (\<lambda>c. Tensor_of_cores [c] None None)))))" for st2
    apply (rule value_of_bind[where g = net_of])
     apply (rule full_tucker_ref_value)
    apply (rule value_of_bind[where g = shown])
     apply (simp add: value_of_lift py_get_map)
    apply (rule value_of_bind[where g = net_of])
     apply (rule full_tucker_ref_value)
    apply (rule value_of_bind[where g = shown])
     apply (simp add: value_of_lift py_get_map)
    apply (rule value_of_bind[where g = shown])
     apply (rule value_of_new)
    apply (simp add: Tensor_of_refs_value)
    done
  have many: "value_of net_of
       (bind_s (map_s (add_mode_at_ref s t sh) [0..<length (ref_cores s)]) (\<lambda>cus.
            let cs = map fst cus; us = map snd cus in
            bind_s (lift_s (py_get cs 0)) (\<lambda>c0. bind_s (new (sum_dim0 (shown c0))) (\<lambda>c0'.
            let cs' = cs[0 := c0'] in
            bind_s (new (sum_dim2 (shown (last cs')))) (\<lambda>cl.
            Tensor_of_refs (cs'[length cs' - 1 := cl]) (Some us) None)))) st2)
     = bind_e (map_e (add_mode_at (net_of s) (net_of t) sh) [0..<length (ref_cores s)]) (\<lambda>cus.
            let cs = map fst cus; us = map snd cus in
            bind_e (py_get cs 0) (\<lambda>c0. bind_e (sum_dim0 c0) (\<lambda>c0'.
            let cs' = cs[0 := c0'] in
            bind_e (sum_dim2 (last cs')) (\<lambda>cl.
            Tensor_of_cores (cs'[length cs' - 1 := cl]) (Some us) None))))" for sh st2
    apply (rule value_of_bind[where g = "map ?g"])
     apply (rule m)
    subgoal for cus st3
      unfolding Let_def f[symmetric]
      apply (rule value_of_bind[where g = shown])
       apply (simp add: value_of_lift py_get_map)
      subgoal for c0 st4
        apply (rule value_of_bind[where g = shown])
         apply (rule value_of_new)
        subgoal for c0' st5
          apply (rule value_of_bind[where g = shown])
           apply (subst value_of_new)
           apply (cases "map fst cus")
            apply (simp add: lift_s_Inr py_get_def)
           apply (simp add: last_map map_update)
          apply (simp add: Tensor_of_refs_value map_update)
          done
        done
      done
    done
  show ?thesis
    unfolding add_ref_def add_nets_def ndim_def
    apply (rule value_of_bind[where g = "\<lambda>x. x"])
     apply (simp add: value_of_lift_id)
    apply (rule value_of_bind[where g = "\<lambda>x. x"])
     apply (simp add: value_of_lift_id)
    subgoal for sh st1 sh' st2
      apply (cases "sh = sh'")
       apply (simp only: not_not not_True_eq_False if_False refl net_of_simps length_map)
       apply (cases "length (ref_cores s) = 1")
        apply (simp only: simp_thms if_True one)
       apply (simp only: if_False many)
      apply (simp add: value_of_lift)
      done
    done
qed

text \<open>
  Claim C9, as the code has it. The operands have their arrays below the free addresses of
  the store. When \<open>+\<close> or \<open>*\<close> on two networks returns, no in-place product has been done,
  and the cores, the factors and the labels of the result are at addresses that were free.
  When \<open>-\<close> returns, both operands are, after the in-place products that were done, as
  before, and the result is at addresses that were free. When \<open>*\<close> or \<open>/\<close> by a number
  returns, the receiver is as before, the cores and factors of the result are at addresses
  that were free, and the list of labels of the result is the list of the receiver. \<open>/\<close>
  by a network raises \<^verbatim>\<open>TypeError\<close>.
\<close>

theorem C9_arithmetic_frame:
  assumes "list_all (\<lambda>a. a < next_free st) (array_storages s)"
    and "list_all (\<lambda>a. a < next_free st) (array_storages t)"
  shows "(add_ref s t st = Inr (ra, sa) \<longrightarrow>
            writes sa = writes st
            \<and> list_all (\<lambda>a. next_free st \<le> a) (label_storage (ref_idxs ra) # array_storages ra))
       \<and> (mul_ref s t st = Inr (rb, sb) \<longrightarrow>
            writes sb = writes st
            \<and> list_all (\<lambda>a. next_free st \<le> a) (label_storage (ref_idxs rb) # array_storages rb))
       \<and> (sub_ref s t st = Inr (rc, sc) \<longrightarrow>
            after (drop (length (writes st)) (writes sc)) s = s
            \<and> after (drop (length (writes st)) (writes sc)) t = t
            \<and> list_all (\<lambda>a. next_free st \<le> a) (label_storage (ref_idxs rc) # array_storages rc))
       \<and> (mul_scalar_ref s x st = Inr (rd, sd) \<longrightarrow>
            after (drop (length (writes st)) (writes sd)) s = s
            \<and> list_all (\<lambda>a. next_free st \<le> a) (array_storages rd)
            \<and> ref_idxs rd = ref_idxs s)
       \<and> (truediv_ref s x st = Inr (re, se) \<longrightarrow>
            after (drop (length (writes st)) (writes se)) s = s
            \<and> list_all (\<lambda>a. next_free st \<le> a) (array_storages re)
            \<and> ref_idxs re = ref_idxs s)
       \<and> truediv (net_of s) (Net (net_of t)) = Inl TypeError"
proof (intro conjI impI)
  assume a: "add_ref s t st = Inr (ra, sa)"
  show "writes sa = writes st"
    "list_all (\<lambda>a. next_free st \<le> a) (label_storage (ref_idxs ra) # array_storages ra)"
    by (rule add_ref_frame[OF a])+
next
  assume a: "mul_ref s t st = Inr (rb, sb)"
  show "writes sb = writes st"
    "list_all (\<lambda>a. next_free st \<le> a) (label_storage (ref_idxs rb) # array_storages rb)"
    by (rule mul_ref_frame[OF a])+
next
  assume a: "sub_ref s t st = Inr (rc, sc)"
  from sub_ref_frame(1)[OF a] obtain b where
    w: "writes sc = writes st @ [(b, - 1)]" and b: "next_free st \<le> b" by blast
  have d: "drop (length (writes st)) (writes sc) = [(b, - 1)]" by (simp add: w)
  show "after (drop (length (writes st)) (writes sc)) s = s"
    unfolding d by (rule after_above[OF assms(1)]) (simp add: b)
  show "after (drop (length (writes st)) (writes sc)) t = t"
    unfolding d by (rule after_above[OF assms(2)]) (simp add: b)
  show "list_all (\<lambda>a. next_free st \<le> a) (label_storage (ref_idxs rc) # array_storages rc)"
    by (rule sub_ref_frame(2)[OF a])
next
  assume a: "mul_scalar_ref s x st = Inr (rd, sd)"
  from mul_scalar_ref_frame(1)[OF a] obtain b where
    w: "writes sd = writes st @ [(b, x)]" and b: "next_free st \<le> b" by blast
  have d: "drop (length (writes st)) (writes sd) = [(b, x)]" by (simp add: w)
  show "after (drop (length (writes st)) (writes sd)) s = s"
    unfolding d by (rule after_above[OF assms(1)]) (simp add: b)
  show "list_all (\<lambda>a. next_free st \<le> a) (array_storages rd)" "ref_idxs rd = ref_idxs s"
    by (rule mul_scalar_ref_frame[OF a])+
next
  assume "truediv_ref s x st = Inr (re, se)"
  then have a: "mul_scalar_ref s (1 / x) st = Inr (re, se)"
    by (simp add: truediv_ref_def lift_s_Inr split: if_splits)
  from mul_scalar_ref_frame(1)[OF a] obtain b where
    w: "writes se = writes st @ [(b, 1 / x)]" and b: "next_free st \<le> b" by blast
  have d: "drop (length (writes st)) (writes se) = [(b, 1 / x)]" by (simp add: w)
  show "after (drop (length (writes st)) (writes se)) s = s"
    unfolding d by (rule after_above[OF assms(1)]) (simp add: b)
  show "list_all (\<lambda>a. next_free st \<le> a) (array_storages re)" "ref_idxs re = ref_idxs s"
    by (rule mul_scalar_ref_frame[OF a])+
next
  show "truediv (net_of s) (Net (net_of t)) = Inl TypeError"
    by (simp add: truediv_def)
qed

lemma pair_add:
  "add_ref pair_ref_1 pair_ref_2 \<lparr>next_free = 6, writes = []\<rparr> =
     Inr (\<lparr>ref_cores = [\<lparr>storage = 16, shown = \<lparr>sizes = [1, 2, 2], elems = [1, 3, 2, 5]\<rparr>\<rparr>,
                         \<lparr>storage = 17, shown = \<lparr>sizes = [2, 2, 1], elems = [1, 3, 2, 1]\<rparr>\<rparr>],
           ref_Us = [None, None],
           ref_idxs = \<lparr>label_storage = 18, label_lists = [[0, 1], [0, 1]]\<rparr>\<rparr>,
          \<lparr>next_free = 19, writes = []\<rparr>)"
  by code_simp

lemma pair_mul:
  "mul_ref pair_ref_1 pair_ref_2 \<lparr>next_free = 6, writes = []\<rparr> =
     Inr (\<lparr>ref_cores = [\<lparr>storage = 6, shown = \<lparr>sizes = [1, 2, 1], elems = [3, 10]\<rparr>\<rparr>,
                         \<lparr>storage = 7, shown = \<lparr>sizes = [1, 2, 1], elems = [2, 3]\<rparr>\<rparr>],
           ref_Us = [None, None],
           ref_idxs = \<lparr>label_storage = 8, label_lists = [[0, 1], [0, 1]]\<rparr>\<rparr>,
          \<lparr>next_free = 9, writes = []\<rparr>)"
  by code_simp

lemma pair_sub:
  "sub_ref pair_ref_1 pair_ref_2 \<lparr>next_free = 6, writes = []\<rparr> =
     Inr (\<lparr>ref_cores = [\<lparr>storage = 18, shown = \<lparr>sizes = [1, 2, 2], elems = [1, - 3, 2, - 5]\<rparr>\<rparr>,
                         \<lparr>storage = 19, shown = \<lparr>sizes = [2, 2, 1], elems = [1, 3, 2, 1]\<rparr>\<rparr>],
           ref_Us = [None, None],
           ref_idxs = \<lparr>label_storage = 20, label_lists = [[0, 1], [0, 1]]\<rparr>\<rparr>,
          \<lparr>next_free = 21, writes = [(6, - 1)]\<rparr>)"
  by code_simp

lemma pair_mul_scalar:
  "mul_scalar_ref pair_ref_1 2 \<lparr>next_free = 6, writes = []\<rparr> =
     Inr (\<lparr>ref_cores = [\<lparr>storage = 6, shown = \<lparr>sizes = [1, 2, 1], elems = [2, 4]\<rparr>\<rparr>,
                         \<lparr>storage = 7, shown = \<lparr>sizes = [1, 2, 1], elems = [1, 3]\<rparr>\<rparr>],
           ref_Us = [None, None],
           ref_idxs = \<lparr>label_storage = 2, label_lists = [[0, 1], [0, 1]]\<rparr>\<rparr>,
          \<lparr>next_free = 8, writes = [(6, 2)]\<rparr>)"
  by code_simp

lemma pair_truediv:
  "truediv_ref pair_ref_1 2 \<lparr>next_free = 6, writes = []\<rparr> =
     Inr (\<lparr>ref_cores = [\<lparr>storage = 6, shown = \<lparr>sizes = [1, 2, 1], elems = [1 / 2, 1]\<rparr>\<rparr>,
                         \<lparr>storage = 7, shown = \<lparr>sizes = [1, 2, 1], elems = [1, 3]\<rparr>\<rparr>],
           ref_Us = [None, None],
           ref_idxs = \<lparr>label_storage = 2, label_lists = [[0, 1], [0, 1]]\<rparr>\<rparr>,
          \<lparr>next_free = 8, writes = [(6, 1 / 2)]\<rparr>)"
  by code_simp

text \<open>
  The theorem at two networks of two cores each and the number 2: every operator returns,
  and \<open>/\<close> between the two networks raises.
\<close>

theorem C9_arithmetic_frame_witness:
  "list_all (\<lambda>a. a < 6) (array_storages pair_ref_1)
   \<and> list_all (\<lambda>a. a < 6) (array_storages pair_ref_2)
   \<and> (case add_ref pair_ref_1 pair_ref_2 \<lparr>next_free = 6, writes = []\<rparr> of
         Inl e \<Rightarrow> False
       | Inr (r, st') \<Rightarrow> writes st' = []
           \<and> list_all (\<lambda>a. 6 \<le> a) (label_storage (ref_idxs r) # array_storages r))
   \<and> (case mul_ref pair_ref_1 pair_ref_2 \<lparr>next_free = 6, writes = []\<rparr> of
         Inl e \<Rightarrow> False
       | Inr (r, st') \<Rightarrow> writes st' = []
           \<and> list_all (\<lambda>a. 6 \<le> a) (label_storage (ref_idxs r) # array_storages r))
   \<and> (case sub_ref pair_ref_1 pair_ref_2 \<lparr>next_free = 6, writes = []\<rparr> of
         Inl e \<Rightarrow> False
       | Inr (r, st') \<Rightarrow> after (writes st') pair_ref_1 = pair_ref_1
           \<and> after (writes st') pair_ref_2 = pair_ref_2
           \<and> list_all (\<lambda>a. 6 \<le> a) (label_storage (ref_idxs r) # array_storages r))
   \<and> (case mul_scalar_ref pair_ref_1 2 \<lparr>next_free = 6, writes = []\<rparr> of
         Inl e \<Rightarrow> False
       | Inr (r, st') \<Rightarrow> after (writes st') pair_ref_1 = pair_ref_1
           \<and> list_all (\<lambda>a. 6 \<le> a) (array_storages r) \<and> ref_idxs r = ref_idxs pair_ref_1)
   \<and> (case truediv_ref pair_ref_1 2 \<lparr>next_free = 6, writes = []\<rparr> of
         Inl e \<Rightarrow> False
       | Inr (r, st') \<Rightarrow> after (writes st') pair_ref_1 = pair_ref_1
           \<and> list_all (\<lambda>a. 6 \<le> a) (array_storages r) \<and> ref_idxs r = ref_idxs pair_ref_1)
   \<and> truediv (net_of pair_ref_1) (Net (net_of pair_ref_2)) = Inl TypeError"
proof -
  have b: "list_all (\<lambda>a. a < next_free \<lparr>next_free = 6, writes = []\<rparr>) (array_storages pair_ref_1)"
    "list_all (\<lambda>a. a < next_free \<lparr>next_free = 6, writes = []\<rparr>) (array_storages pair_ref_2)"
    by (simp_all add: array_storages_def pair_ref_1_def pair_ref_2_def)
  show ?thesis
    using C9_arithmetic_frame[OF b,
        where ra = "\<lparr>ref_cores = [\<lparr>storage = 16, shown = \<lparr>sizes = [1, 2, 2], elems = [1, 3, 2, 5]\<rparr>\<rparr>,
                         \<lparr>storage = 17, shown = \<lparr>sizes = [2, 2, 1], elems = [1, 3, 2, 1]\<rparr>\<rparr>],
           ref_Us = [None, None],
           ref_idxs = \<lparr>label_storage = 18, label_lists = [[0, 1], [0, 1]]\<rparr>\<rparr>"
        and sa = "\<lparr>next_free = 19, writes = []\<rparr>"
        and rb = "\<lparr>ref_cores = [\<lparr>storage = 6, shown = \<lparr>sizes = [1, 2, 1], elems = [3, 10]\<rparr>\<rparr>,
                         \<lparr>storage = 7, shown = \<lparr>sizes = [1, 2, 1], elems = [2, 3]\<rparr>\<rparr>],
           ref_Us = [None, None],
           ref_idxs = \<lparr>label_storage = 8, label_lists = [[0, 1], [0, 1]]\<rparr>\<rparr>"
        and sb = "\<lparr>next_free = 9, writes = []\<rparr>"
        and rc = "\<lparr>ref_cores = [\<lparr>storage = 18, shown = \<lparr>sizes = [1, 2, 2], elems = [1, - 3, 2, - 5]\<rparr>\<rparr>,
                         \<lparr>storage = 19, shown = \<lparr>sizes = [2, 2, 1], elems = [1, 3, 2, 1]\<rparr>\<rparr>],
           ref_Us = [None, None],
           ref_idxs = \<lparr>label_storage = 20, label_lists = [[0, 1], [0, 1]]\<rparr>\<rparr>"
        and sc = "\<lparr>next_free = 21, writes = [(6, - 1)]\<rparr>"
        and x = 2
        and rd = "\<lparr>ref_cores = [\<lparr>storage = 6, shown = \<lparr>sizes = [1, 2, 1], elems = [2, 4]\<rparr>\<rparr>,
                         \<lparr>storage = 7, shown = \<lparr>sizes = [1, 2, 1], elems = [1, 3]\<rparr>\<rparr>],
           ref_Us = [None, None],
           ref_idxs = \<lparr>label_storage = 2, label_lists = [[0, 1], [0, 1]]\<rparr>\<rparr>"
        and sd = "\<lparr>next_free = 8, writes = [(6, 2)]\<rparr>"
        and re = "\<lparr>ref_cores = [\<lparr>storage = 6, shown = \<lparr>sizes = [1, 2, 1], elems = [1 / 2, 1]\<rparr>\<rparr>,
                         \<lparr>storage = 7, shown = \<lparr>sizes = [1, 2, 1], elems = [1, 3]\<rparr>\<rparr>],
           ref_Us = [None, None],
           ref_idxs = \<lparr>label_storage = 2, label_lists = [[0, 1], [0, 1]]\<rparr>\<rparr>"
        and se = "\<lparr>next_free = 8, writes = [(6, 1 / 2)]\<rparr>"] b
    by (simp add: pair_add pair_mul pair_sub pair_mul_scalar pair_truediv array_storages_def)
qed

text \<open>
  Claim C9 has item access allocate new storage and never share the storage of an operand.
  On the network of one core (at address 0) with a factor of three rows (at address 1),
  which the constructor accepts, the access \<^verbatim>\<open>t[:]\<close> returns a network whose core is
  the core of the receiver itself (line 360) and whose factor is a view of the factor of
  the receiver (line 361): the result has its arrays at the addresses 0 and 1, those of
  the receiver.
\<close>

theorem C9_item_access_shares_storage:
  "getitem_ref 3 tucker_ref [full_slice] =
     Inr (NetworkR
           \<lparr>ref_cores = [\<lparr>storage = 0, shown = \<lparr>sizes = [1, 2, 1], elems = [1, 2]\<rparr>\<rparr>],
            ref_Us = [Some \<lparr>storage = 1, shown = \<lparr>sizes = [3, 2], elems = [1, 0, 0, 1, 1, 1]\<rparr>\<rparr>],
            ref_idxs = \<lparr>label_storage = 5, label_lists = [[0, 1, 2]]\<rparr>\<rparr>, 6)
   \<and> array_storages tucker_ref = [0, 1]
   \<and> Tensor_of_cores (cores (net_of tucker_ref)) (Some (Us (net_of tucker_ref))) None
       = Inr (net_of tucker_ref)"
  by code_simp

end
